theory Spec2Isabelle
  imports Main "HOL-Library.Word" "HOL-Library.Signed_Division"
begin

section \<open>Data model of the shared store\<close>

text \<open>
  The structures of FTL's shared memory, as far as \<^verbatim>\<open>src/gc.c\<close> and
  \<^verbatim>\<open>src/api/history.c\<close> read and write them. A \<^verbatim>\<open>time_t\<close> is an \<^typ>\<open>int\<close>
  (signed overflow is undefined in C and far from any clock value), an
  \<^verbatim>\<open>unsigned int\<close> is a \<^typ>\<open>32 word\<close>, a plain \<^verbatim>\<open>int\<close> counter is an
  \<^typ>\<open>int\<close>. C's \<^verbatim>\<open>%\<close> truncates towards zero: it is \<open>smod\<close>, not \<open>mod\<close>.
\<close>

datatype query_status =
    QUERY_UNKNOWN
  | QUERY_GRAVITY
  | QUERY_FORWARDED
  | QUERY_CACHE
  | QUERY_REGEX
  | QUERY_DENYLIST
  | QUERY_EXTERNAL_BLOCKED_IP
  | QUERY_EXTERNAL_BLOCKED_NULL
  | QUERY_EXTERNAL_BLOCKED_NXRA
  | QUERY_GRAVITY_CNAME
  | QUERY_REGEX_CNAME
  | QUERY_DENYLIST_CNAME
  | QUERY_RETRIED
  | QUERY_RETRIED_DNSSEC
  | QUERY_IN_PROGRESS
  | QUERY_DBBUSY
  | QUERY_SPECIAL_DOMAIN
  | QUERY_CACHE_STALE
  | QUERY_STATUS_MAX

record queriesData =
  timestamp :: int
  clientID :: int
  domainID :: int
  status :: query_status
  reply :: nat
  qtype :: nat
  db :: int

record clientsData =
  c_count :: int
  c_blockedcount :: int
  c_overTime :: "int list"
  flag_aliasclient :: bool
  aliasclient_id :: int
  flag_rate_limited :: bool
  rate_limit :: "32 word"
  ippos :: nat
  namepos :: nat

record domainsData =
  d_count :: int
  d_blockedcount :: int

record overTimeData =
  ot_timestamp :: int
  total :: int
  blocked :: int
  cached :: int

text \<open>
  The macros of \<^verbatim>\<open>FTL.h\<close> and \<^verbatim>\<open>enums.h\<close> that the two files use; the headers are
  not part of the sources at hand, so the values are parameters.
\<close>

record macros =
  GCdelay :: int
  GCinterval :: int
  OVERTIME_INTERVAL :: int
  TYPE_MAX :: nat

text \<open>The settings read through \<^verbatim>\<open>config\<close>.\<close>

record config =
  maxHistory :: "32 word"
  rateLimit_count :: "32 word"
  check_disk :: "32 word"

text \<open>
  The shared memory: the query array (\<open>queries_mem\<close>, of \<^verbatim>\<open>counters->queries_MAX\<close>
  cells) with its fill counter, the client and domain tables, the \<^verbatim>\<open>overTime\<close> array
  and the global counters. \<open>db_deleted\<close> records the calls of
  \<^verbatim>\<open>delete_query_from_db\<close>, the only effect of \<^verbatim>\<open>runGC\<close> outside the store.
\<close>

record shm =
  queries_mem :: "queriesData list"
  queries :: nat
  clients_n :: int
  clients :: "int \<Rightarrow> clientsData option"
  domains :: "int \<Rightarrow> domainsData option"
  overTime :: "overTimeData list"
  status_cnt :: "query_status \<Rightarrow> int"
  reply_cnt :: "nat \<Rightarrow> int"
  querytype_cnt :: "nat \<Rightarrow> int"
  doGC :: bool
  DBdeleteoldqueries :: bool
  db_deleted :: "int list"

text \<open>
  Modelled from the spec: the accessors \<^verbatim>\<open>getQuery\<close>, \<^verbatim>\<open>getClient\<close> and
  \<^verbatim>\<open>getDomain\<close>, declared in \<^verbatim>\<open>shmem.h\<close> and defined outside the sources at hand.
  They return a pointer or \<^verbatim>\<open>NULL\<close>; after the spec's index-based identities and its
  lookups that return "not found", a query pointer is \<^verbatim>\<open>NULL\<close> outside the allocated
  array, and a client or a domain is \<^verbatim>\<open>NULL\<close> where the table has no valid entry for
  the identity.
\<close>

definition getQuery :: "shm \<Rightarrow> nat \<Rightarrow> queriesData option" where
  "getQuery s i = (if i < length (queries_mem s) then Some (queries_mem s ! i) else None)"

definition getClient :: "shm \<Rightarrow> int \<Rightarrow> clientsData option" where
  "getClient s cid = clients s cid"

definition getDomain :: "shm \<Rightarrow> int \<Rightarrow> domainsData option" where
  "getDomain s did = domains s did"

section \<open>Rate limiting (\<^verbatim>\<open>reset_rate_limiting\<close>)\<close>

text \<open>The body of the loop for one client that was found.\<close>

definition reset_client :: "config \<Rightarrow> clientsData \<Rightarrow> clientsData" where
  "reset_client cfg client =
     (let client1 =
        (if flag_rate_limited client
         then (if rate_limit client > rateLimit_count cfg
               then client
               else client\<lparr>flag_rate_limited := False\<rparr>)
         else client)
      in client1\<lparr>rate_limit := 0\<rparr>)"

definition reset_step :: "config \<Rightarrow> int \<Rightarrow> shm \<Rightarrow> shm" where
  "reset_step cfg cid s =
     (case getClient s cid of
        None \<Rightarrow> s
      | Some client \<Rightarrow> s\<lparr>clients := (clients s)(cid \<mapsto> reset_client cfg client)\<rparr>)"

definition reset_rate_limiting :: "config \<Rightarrow> shm \<Rightarrow> shm" where
  "reset_rate_limiting cfg s = fold (reset_step cfg) [0..clients_n s - 1] s"

section \<open>Resource monitor (\<^verbatim>\<open>check_space\<close>)\<close>

text \<open>
  \<open>usage\<close> is what \<^verbatim>\<open>get_filepath_usage\<close> returns for the file (an \<^verbatim>\<open>int\<close>, stored
  into the \<^verbatim>\<open>unsigned int perc\<close>). The result pairs whether
  \<^verbatim>\<open>log_resource_shortage\<close> was called with the returned \<^verbatim>\<open>int\<close>.
\<close>

definition check_space :: "config \<Rightarrow> int \<Rightarrow> 32 word \<Rightarrow> bool \<times> int" where
  "check_space cfg usage LastUsage =
     (if check_disk cfg = 0 then (False, 0)
      else
        (let perc = (word_of_int usage :: 32 word)
         in (perc > check_disk cfg \<and> perc > LastUsage, sint perc)))"

section \<open>Garbage collection (\<^verbatim>\<open>runGC\<close>)\<close>

definition gc_lastGCrun :: "macros \<Rightarrow> int \<Rightarrow> int" where
  "gc_lastGCrun k now = now - GCdelay k - ((now - GCdelay k) smod GCinterval k)"

definition gc_mintime :: "macros \<Rightarrow> config \<Rightarrow> int \<Rightarrow> int" where
  "gc_mintime k cfg now =
     (let mintime = (now - GCdelay k) - uint (maxHistory cfg)
      in mintime - (mintime smod GCinterval k))"


text \<open>
  The blocking statuses of the spec (the statuses it names \<open>Blocked...\<close>), which the
  comments of the \<^verbatim>\<open>switch\<close> describe as blocked, and its two cached statuses.
\<close>

definition blocking_status :: "query_status \<Rightarrow> bool" where
  "blocking_status st \<longleftrightarrow>
     st \<in> {QUERY_GRAVITY, QUERY_DENYLIST, QUERY_REGEX, QUERY_EXTERNAL_BLOCKED_IP,
           QUERY_EXTERNAL_BLOCKED_NXRA, QUERY_EXTERNAL_BLOCKED_NULL, QUERY_GRAVITY_CNAME,
           QUERY_REGEX_CNAME, QUERY_DENYLIST_CNAME, QUERY_DBBUSY, QUERY_SPECIAL_DOMAIN}"

definition cached_status :: "query_status \<Rightarrow> bool" where
  "cached_status st \<longleftrightarrow> st \<in> {QUERY_CACHE, QUERY_CACHE_STALE}"

text \<open>
  Writes to \<^verbatim>\<open>overTime[timeidx]\<close>. \<^verbatim>\<open>timeidx\<close> comes from \<^verbatim>\<open>getOverTimeID\<close>, which is
  defined outside the sources at hand and is a parameter \<open>gid\<close> of the model. A write
  outside the array is undefined in C; the model leaves the array as it is there, and
  the theorems on a slot assume the index names one.
\<close>

definition overTime_upd :: "(overTimeData \<Rightarrow> overTimeData) \<Rightarrow> int \<Rightarrow> shm \<Rightarrow> shm" where
  "overTime_upd f timeidx s =
     (if 0 \<le> timeidx \<and> timeidx < int (length (overTime s))
      then s\<lparr>overTime := (overTime s)[nat timeidx := f (overTime s ! nat timeidx)]\<rparr>
      else s)"

definition client_upd :: "(clientsData \<Rightarrow> clientsData) \<Rightarrow> int \<Rightarrow> shm \<Rightarrow> shm" where
  "client_upd f cid s =
     (case getClient s cid of
        None \<Rightarrow> s
      | Some client \<Rightarrow> s\<lparr>clients := (clients s)(cid \<mapsto> f client)\<rparr>)"

definition domain_upd :: "(domainsData \<Rightarrow> domainsData) \<Rightarrow> int \<Rightarrow> shm \<Rightarrow> shm" where
  "domain_upd f did s =
     (case getDomain s did of
        None \<Rightarrow> s
      | Some domain \<Rightarrow> s\<lparr>domains := (domains s)(did \<mapsto> f domain)\<rparr>)"

text \<open>The change of one slot of a client's per-bucket array; an index such as \<open>-1\<close> names no slot.\<close>

definition bump_overTime :: "int \<Rightarrow> int \<Rightarrow> clientsData \<Rightarrow> clientsData" where
  "bump_overTime overTimeIdx overTimeMod client =
     (if 0 \<le> overTimeIdx \<and> overTimeIdx < int (length (c_overTime client))
      then client\<lparr>c_overTime :=
                    (c_overTime client)
                      [nat overTimeIdx := c_overTime client ! nat overTimeIdx + overTimeMod]\<rparr>
      else client)"

text \<open>
  Modelled from the spec: \<^verbatim>\<open>change_clientcount\<close>, declared in
  \<^verbatim>\<open>datastructure.h\<close> and defined outside the sources at hand. The client pointer is
  the identity \<open>cid\<close>. After the call sites in \<^verbatim>\<open>runGC\<close> it adds \<open>total\<close> and
  \<open>blocked\<close> to the two counters of the client and \<open>overTimeMod\<close> to the slot
  \<open>overTimeIdx\<close> of a per-bucket array. After the spec's alias rule (the per-bucket
  count is "skipped for alias clients, attributed to canonical client otherwise";
  "skip alias clients") the array is the client's own unless the client is managed by
  an alias-client (\<^verbatim>\<open>aliasclient_id >= 0\<close>): then its own array is left alone and the
  array of that alias-client changes, if the table has it.
\<close>

definition change_clientcount :: "int \<Rightarrow> int \<Rightarrow> int \<Rightarrow> int \<Rightarrow> int \<Rightarrow> shm \<Rightarrow> shm" where
  "change_clientcount cid tot blk overTimeIdx overTimeMod s =
     (case getClient s cid of
        None \<Rightarrow> s
      | Some client \<Rightarrow>
          (let s1 = s\<lparr>clients := (clients s)
                         (cid \<mapsto> client\<lparr>c_count := c_count client + tot,
                                         c_blockedcount := c_blockedcount client + blk\<rparr>)\<rparr>;
               target = (if aliasclient_id client \<ge> 0 then aliasclient_id client else cid)
           in client_upd (bump_overTime overTimeIdx overTimeMod) target s1))"

text \<open>
  Modelled from the spec: \<^verbatim>\<open>query_set_status\<close>, declared in \<^verbatim>\<open>datastructure.h\<close> and
  defined outside the sources at hand; the spec's \<open>mutate_status\<close>. A change of status
  applies the inverse of the old status's aggregate effect and the forward effect of the
  new one: one unit of the global per-status counters moves from the old status to the
  new one (the comment in \<^verbatim>\<open>runGC\<close>: "Subtract UNKNOWN from the counters before
  setting the status if different"), the bucket's blocked count and the domain's blocked
  count follow a blocking status, the bucket's cached count follows a cached status, and
  the new status is stored in the query \<open>i\<close>.
\<close>

definition query_set_status :: "(int \<Rightarrow> int) \<Rightarrow> nat \<Rightarrow> query_status \<Rightarrow> shm \<Rightarrow> shm" where
  "query_set_status gid i new_status s =
     (let query = queries_mem s ! i; old_status = status query
      in if old_status = new_status then s
         else
           (let c1 = (status_cnt s)(old_status := status_cnt s old_status - 1);
                c2 = c1(new_status := c1 new_status + 1);
                s1 = s\<lparr>status_cnt := c2\<rparr>;
                timeidx = gid (timestamp query);
                s2 = (if blocking_status old_status
                      then domain_upd (\<lambda>d. d\<lparr>d_blockedcount := d_blockedcount d - 1\<rparr>)
                             (domainID query)
                             (overTime_upd (\<lambda>b. b\<lparr>blocked := blocked b - 1\<rparr>) timeidx s1)
                      else s1);
                s3 = (if blocking_status new_status
                      then domain_upd (\<lambda>d. d\<lparr>d_blockedcount := d_blockedcount d + 1\<rparr>)
                             (domainID query)
                             (overTime_upd (\<lambda>b. b\<lparr>blocked := blocked b + 1\<rparr>) timeidx s2)
                      else s2);
                s4 = (if cached_status old_status
                      then overTime_upd (\<lambda>b. b\<lparr>cached := cached b - 1\<rparr>) timeidx s3
                      else s3);
                s5 = (if cached_status new_status
                      then overTime_upd (\<lambda>b. b\<lparr>cached := cached b + 1\<rparr>) timeidx s4
                      else s4)
            in s5\<lparr>queries_mem := (queries_mem s5)[i := query\<lparr>status := new_status\<rparr>]\<rparr>))"

text \<open>The branch of the \<^verbatim>\<open>switch\<close> shared by the eleven blocked statuses.\<close>

definition gc_blocked :: "int \<Rightarrow> queriesData \<Rightarrow> shm \<Rightarrow> shm" where
  "gc_blocked timeidx query s =
     (let s1 = overTime_upd (\<lambda>b. b\<lparr>blocked := blocked b - 1\<rparr>) timeidx s;
          s2 = domain_upd (\<lambda>d. d\<lparr>d_blockedcount := d_blockedcount d - 1\<rparr>) (domainID query) s1
      in if getClient s2 (clientID query) \<noteq> None
         then change_clientcount (clientID query) 0 (-1) (-1) 0 s2
         else s2)"

definition gc_switch :: "int \<Rightarrow> queriesData \<Rightarrow> shm \<Rightarrow> shm" where
  "gc_switch timeidx query s =
     (case status query of
        QUERY_UNKNOWN \<Rightarrow> s
      | QUERY_FORWARDED \<Rightarrow> s
      | QUERY_RETRIED \<Rightarrow> s
      | QUERY_RETRIED_DNSSEC \<Rightarrow> s
      | QUERY_CACHE \<Rightarrow> s
      | QUERY_CACHE_STALE \<Rightarrow> s
      | QUERY_GRAVITY \<Rightarrow> gc_blocked timeidx query s
      | QUERY_DENYLIST \<Rightarrow> gc_blocked timeidx query s
      | QUERY_REGEX \<Rightarrow> gc_blocked timeidx query s
      | QUERY_EXTERNAL_BLOCKED_IP \<Rightarrow> gc_blocked timeidx query s
      | QUERY_EXTERNAL_BLOCKED_NXRA \<Rightarrow> gc_blocked timeidx query s
      | QUERY_EXTERNAL_BLOCKED_NULL \<Rightarrow> gc_blocked timeidx query s
      | QUERY_GRAVITY_CNAME \<Rightarrow> gc_blocked timeidx query s
      | QUERY_REGEX_CNAME \<Rightarrow> gc_blocked timeidx query s
      | QUERY_DENYLIST_CNAME \<Rightarrow> gc_blocked timeidx query s
      | QUERY_DBBUSY \<Rightarrow> gc_blocked timeidx query s
      | QUERY_SPECIAL_DOMAIN \<Rightarrow> gc_blocked timeidx query s
      | QUERY_IN_PROGRESS \<Rightarrow> s
      | QUERY_STATUS_MAX \<Rightarrow> s)"

text \<open>
  The first part of the loop body, for a query that is old enough: the statements of
  \<^verbatim>\<open>runGC\<close> from the client lookup to the end of the \<^verbatim>\<open>switch\<close>, which adjust the
  counters of slot, client and domain.
\<close>

definition gc_counters :: "(int \<Rightarrow> int) \<Rightarrow> queriesData \<Rightarrow> shm \<Rightarrow> shm" where
  "gc_counters gid query s =
     (let timeidx = gid (timestamp query);
          s1 = overTime_upd (\<lambda>b. b\<lparr>total := total b - 1\<rparr>) timeidx s;
          s2 = (if getClient s1 (clientID query) \<noteq> None
                then change_clientcount (clientID query) (-1) 0 timeidx (-1) s1
                else s1);
          s3 = domain_upd (\<lambda>d. d\<lparr>d_count := d_count d - 1\<rparr>) (domainID query) s2
      in gc_switch timeidx query s3)"

text \<open>
  The whole body for the query at index \<open>i\<close>: the counters above, the reply and type
  counters, the status reset and the deletion from the database. The lock is given up
  around the deletion only; the model runs the pass alone.
\<close>

definition gc_evict :: "macros \<Rightarrow> (int \<Rightarrow> int) \<Rightarrow> nat \<Rightarrow> queriesData \<Rightarrow> shm \<Rightarrow> shm" where
  "gc_evict k gid i query s =
     (let s4 = gc_counters gid query s;
          s5 = s4\<lparr>reply_cnt := (reply_cnt s4)(reply query := reply_cnt s4 (reply query) - 1)\<rparr>;
          s6 = (if qtype query < TYPE_MAX k
                then s5\<lparr>querytype_cnt :=
                          (querytype_cnt s5)(qtype query := querytype_cnt s5 (qtype query) - 1)\<rparr>
                else s5);
          s7 = (if status query \<noteq> QUERY_UNKNOWN
                then s6\<lparr>status_cnt :=
                          (status_cnt s6)(QUERY_UNKNOWN := status_cnt s6 QUERY_UNKNOWN - 1)\<rparr>
                else s6);
          s8 = query_set_status gid i QUERY_UNKNOWN s7
      in s8\<lparr>db_deleted := db_deleted s8 @ [db query]\<rparr>)"

text \<open>The body applied to the query that cell \<open>j\<close> holds.\<close>

definition evict_at :: "macros \<Rightarrow> (int \<Rightarrow> int) \<Rightarrow> nat \<Rightarrow> shm \<Rightarrow> shm" where
  "evict_at k gid j st = gc_evict k gid j (queries_mem st ! j) st"

text \<open>
  The loop over the queries: \<open>i\<close> is the loop index, \<open>removed\<close> the counter of the same
  name. It skips a \<^verbatim>\<open>NULL\<close> query and stops at the first query newer than \<open>mintime\<close>.
\<close>

function gc_scan :: "macros \<Rightarrow> (int \<Rightarrow> int) \<Rightarrow> int \<Rightarrow> nat \<Rightarrow> nat \<Rightarrow> shm \<Rightarrow> nat \<times> shm" where
  "gc_scan k gid mintime i removed s =
     (if i < queries s then
        (case getQuery s i of
           None \<Rightarrow> gc_scan k gid mintime (i + 1) removed s
         | Some query \<Rightarrow>
             if timestamp query > mintime then (removed, s)
             else gc_scan k gid mintime (i + 1) (removed + 1) (gc_evict k gid i query s))
      else (removed, s))"
  by pat_completeness auto
termination
proof (relation "measure (\<lambda>(k, gid, mintime, i, removed, s). queries s - i)")
  have ot: "\<And>f t s. queries (overTime_upd f t s) = queries s"
    by (simp add: overTime_upd_def)
  have cl: "\<And>f c s. queries (client_upd f c s) = queries s"
    by (simp add: client_upd_def split: option.split)
  have dm: "\<And>f d s. queries (domain_upd f d s) = queries s"
    by (simp add: domain_upd_def split: option.split)
  have cc: "\<And>c t b x m s. queries (change_clientcount c t b x m s) = queries s"
    by (simp add: change_clientcount_def Let_def cl split: option.split)
  have bl: "\<And>t q s. queries (gc_blocked t q s) = queries s"
    by (simp add: gc_blocked_def Let_def ot cc dm)
  have sw: "\<And>t q s. queries (gc_switch t q s) = queries s"
    by (simp add: gc_switch_def bl split: query_status.split)
  have co: "\<And>gid q s. queries (gc_counters gid q s) = queries s"
    by (simp add: gc_counters_def Let_def ot cc dm sw)
  have qs: "\<And>gid i st s. queries (query_set_status gid i st s) = queries s"
    by (simp add: query_set_status_def Let_def ot dm)
  have ev: "\<And>k gid i q s. queries (gc_evict k gid i q s) = queries s"
    by (simp add: gc_evict_def Let_def co qs)
  show "wf (measure (\<lambda>(k, gid, mintime, i, removed, s). queries s - i))"
    by simp
  show "\<And>k gid mintime i removed s.
          i < queries s \<Longrightarrow> getQuery s i = None \<Longrightarrow>
          ((k, gid, mintime, i + 1, removed, s), (k, gid, mintime, i, removed, s))
            \<in> measure (\<lambda>(k, gid, mintime, i, removed, s). queries s - i)"
    by simp
  show "\<And>k gid mintime i removed s x2.
          i < queries s \<Longrightarrow> getQuery s i = Some x2 \<Longrightarrow> \<not> mintime < timestamp x2 \<Longrightarrow>
          ((k, gid, mintime, i + 1, removed + 1, gc_evict k gid i x2 s),
           (k, gid, mintime, i, removed, s))
            \<in> measure (\<lambda>(k, gid, mintime, i, removed, s). queries s - i)"
    by (simp add: ev)
qed

text \<open>The all-zero query that \<^verbatim>\<open>memset\<close> leaves in a freed cell.\<close>

definition zero_query :: queriesData where
  "zero_query = \<lparr>timestamp = 0, clientID = 0, domainID = 0, status = QUERY_UNKNOWN,
                 reply = 0, qtype = 0, db = 0\<rparr>"

text \<open>\<^verbatim>\<open>memmove\<close> of \<open>n\<close> queries from cell \<open>src\<close> to cell \<open>dst\<close>, and \<^verbatim>\<open>memset\<close> of \<open>n\<close> cells from \<open>at\<close>.\<close>

definition memmove_queries :: "queriesData list \<Rightarrow> nat \<Rightarrow> nat \<Rightarrow> nat \<Rightarrow> queriesData list" where
  "memmove_queries mem dst src n = take dst mem @ take n (drop src mem) @ drop (dst + n) mem"

definition memset_queries :: "queriesData list \<Rightarrow> nat \<Rightarrow> nat \<Rightarrow> queriesData list" where
  "memset_queries mem at n = take at mem @ replicate n zero_query @ drop (at + n) mem"

text \<open>The block under \<^verbatim>\<open>if(removed > 0)\<close>.\<close>

definition gc_compact :: "nat \<Rightarrow> shm \<Rightarrow> shm" where
  "gc_compact removed s =
     (let dest = getQuery s 0;
          src = getQuery s removed;
          s1 = (if dest \<noteq> None \<and> src \<noteq> None
                then s\<lparr>queries_mem := memmove_queries (queries_mem s) 0 removed (queries s - removed)\<rparr>
                else s);
          s2 = s1\<lparr>queries := queries s1 - removed\<rparr>;
          tail = getQuery s2 (queries s2)
      in if tail \<noteq> None
         then s2\<lparr>queries_mem :=
                   memset_queries (queries_mem s2) (queries s2) (length (queries_mem s2) - queries s2)\<rparr>
         else s2)"

text \<open>
  Modelled from the spec: \<^verbatim>\<open>moveOverTimeMemory\<close>, declared in \<^verbatim>\<open>overTime.h\<close> and
  defined outside the sources at hand; the spec's \<open>shift_window\<close>. Every bucket whose
  timestamp falls below the new minimum is dropped from the window and its slot is
  recycled for a future time: the kept buckets move to the front, and the freed slots
  follow the last kept bucket at the bucket width (from the new minimum when no bucket
  is kept), with zero counts. The per-bucket array of every client is parallel to the
  histogram and moves with it.
\<close>

definition fresh_slots :: "int \<Rightarrow> int \<Rightarrow> nat \<Rightarrow> overTimeData list" where
  "fresh_slots width t0 n =
     map (\<lambda>j. \<lparr>ot_timestamp = t0 + int j * width, total = 0, blocked = 0, cached = 0\<rparr>) [0..<n]"

definition shift_client :: "overTimeData list \<Rightarrow> int \<Rightarrow> int list \<Rightarrow> int list" where
  "shift_client ot new_min cot =
     map snd (filter (\<lambda>(b, c). new_min \<le> ot_timestamp b) (zip ot cot))
     @ replicate (length (filter (\<lambda>b. ot_timestamp b < new_min) ot)) 0"

definition moveOverTimeMemory :: "macros \<Rightarrow> int \<Rightarrow> shm \<Rightarrow> shm" where
  "moveOverTimeMemory k new_min s =
     (let ot = overTime s;
          kept = filter (\<lambda>b. new_min \<le> ot_timestamp b) ot;
          n = length ot - length kept
      in if n = 0 then s
         else s\<lparr>overTime :=
                   kept @ fresh_slots (OVERTIME_INTERVAL k)
                            (if kept = [] then new_min
                             else ot_timestamp (last kept) + OVERTIME_INTERVAL k) n,
                 clients :=
                   (\<lambda>cid. map_option
                             (\<lambda>c. c\<lparr>c_overTime := shift_client ot new_min (c_overTime c)\<rparr>)
                             (clients s cid))\<rparr>)"

text \<open>
  \<^verbatim>\<open>runGC\<close>. The result is the value stored through \<^verbatim>\<open>lastGCrun\<close>, the number of
  removed queries (the function logs it) and the store after the pass.
\<close>

definition runGC :: "macros \<Rightarrow> config \<Rightarrow> (int \<Rightarrow> int) \<Rightarrow> int \<Rightarrow> shm \<Rightarrow> int \<times> nat \<times> shm" where
  "runGC k cfg gid now s =
     (let s0 = s\<lparr>doGC := False\<rparr>;
          lastGCrun = gc_lastGCrun k now;
          mintime = gc_mintime k cfg now;
          (removed, s1) = gc_scan k gid mintime 0 0 s0;
          s2 = (if removed > 0 then gc_compact removed s1 else s1);
          s3 = moveOverTimeMemory k mintime s2
      in (lastGCrun, removed, s3\<lparr>DBdeleteoldqueries := True\<rparr>))"

section \<open>History endpoints (\<^verbatim>\<open>api_history\<close>, \<^verbatim>\<open>api_history_clients\<close>)\<close>

text \<open>
  The two search loops over the slots \<open>0 .. OVERTIME_SLOTS - 1\<close>: the first slot from
  \<open>slot\<close> on that satisfies \<open>P\<close>, if any. \<^verbatim>\<open>OVERTIME_SLOTS\<close> is the length of the array.
\<close>

function first_slot :: "(overTimeData \<Rightarrow> bool) \<Rightarrow> overTimeData list \<Rightarrow> nat \<Rightarrow> nat option" where
  "first_slot P ot slot =
     (if slot < length ot
      then (if P (ot ! slot) then Some slot else first_slot P ot (slot + 1))
      else None)"
  by pat_completeness auto
termination
  by (relation "measure (\<lambda>(P, ot, slot). length ot - slot)") auto

text \<open>The slot that starts the output: non-empty and not older than slot 0.\<close>

definition history_from :: "overTimeData list \<Rightarrow> nat option" where
  "history_from ot =
     first_slot (\<lambda>b. (total b > 0 \<or> blocked b > 0) \<and> ot_timestamp b \<ge> ot_timestamp (ot ! 0)) ot 0"

text \<open>The slot that ends the output: \<open>now\<close> is the value of \<^verbatim>\<open>time(NULL)\<close> during the call.\<close>

definition history_until :: "overTimeData list \<Rightarrow> int \<Rightarrow> nat" where
  "history_until ot now =
     (case first_slot (\<lambda>b. ot_timestamp b \<ge> now) ot 0 of
        None \<Rightarrow> length ot
      | Some slot \<Rightarrow> slot)"

record history_item =
  h_timestamp :: int
  h_total :: int
  h_cached :: int
  h_blocked :: int

text \<open>
  The body sent by \<^verbatim>\<open>api_history\<close>: the array with one empty object when no slot has
  data, the object with the member \<open>history\<close> otherwise.
\<close>

datatype history_reply = Empty_item | History "history_item list"

definition history_item_of :: "overTimeData \<Rightarrow> history_item" where
  "history_item_of b =
     \<lparr>h_timestamp = ot_timestamp b, h_total = total b, h_cached = cached b, h_blocked = blocked b\<rparr>"

definition api_history :: "overTimeData list \<Rightarrow> int \<Rightarrow> history_reply" where
  "api_history ot now =
     (let found = history_from ot;
          from = (case found of None \<Rightarrow> 0 | Some slot \<Rightarrow> slot);
          until = history_until ot now
      in if found = None then Empty_item
         else History (map (\<lambda>slot. history_item_of (ot ! slot)) [from..<until]))"

text \<open>
  \<^verbatim>\<open>skipclient[clientID]\<close> after the loop that fills it. \<open>excludeclients\<close> is the array
  read from \<^verbatim>\<open>API_EXCLUDE_CLIENTS\<close> (\<open>None\<close> for \<^verbatim>\<open>NULL\<close>), \<open>getstr\<close> the string table.
\<close>

definition skipclient :: "string list option \<Rightarrow> (nat \<Rightarrow> string) \<Rightarrow> shm \<Rightarrow> int \<Rightarrow> bool" where
  "skipclient excludeclients getstr s cid =
     (case excludeclients of
        None \<Rightarrow> False
      | Some arr \<Rightarrow>
          (case getClient s cid of
             None \<Rightarrow> False
           | Some client \<Rightarrow>
               getstr (ippos client) \<in> set arr \<or> getstr (namepos client) \<in> set arr
               \<or> (\<not> flag_aliasclient client \<and> aliasclient_id client > -1)))"

record client_item =
  ci_name :: "string option"
  ci_ip :: string

record clients_history_item =
  ch_timestamp :: int
  ch_data :: "int list"

text \<open>
  The inner loop of the main return loop for one slot: the numbers added to \<open>data\<close>,
  each with the identity of the client whose column it is.
\<close>

definition series_columns ::
  "string list option \<Rightarrow> (nat \<Rightarrow> string) \<Rightarrow> shm \<Rightarrow> nat \<Rightarrow> (int \<times> int) list" where
  "series_columns excludeclients getstr s slot =
     List.map_filter
       (\<lambda>cid. if skipclient excludeclients getstr s cid then None
               else (case getClient s cid of
                       None \<Rightarrow> None
                     | Some client \<Rightarrow>
                         if aliasclient_id client \<ge> 0 then None
                         else Some (cid, c_overTime client ! slot)))
       [0..clients_n s - 1]"

text \<open>The loop that fills \<open>clients\<close>: the items, each with the identity of its client.\<close>

definition directory_entries ::
  "string list option \<Rightarrow> (nat \<Rightarrow> string) \<Rightarrow> shm \<Rightarrow> (int \<times> client_item) list" where
  "directory_entries excludeclients getstr s =
     List.map_filter
       (\<lambda>cid. if skipclient excludeclients getstr s cid then None
               else (case getClient s cid of
                       None \<Rightarrow> None
                     | Some client \<Rightarrow>
                         Some (cid, \<lparr>ci_name = (if namepos client \<noteq> 0
                                                 then Some (getstr (namepos client)) else None),
                                     ci_ip = getstr (ippos client)\<rparr>)))
       [0..clients_n s - 1]"

datatype clients_reply = Unauthorized | Clients_history "clients_history_item list" "client_item list"

text \<open>
  \<^verbatim>\<open>api_history_clients\<close>. \<open>authorized\<close> is the outcome of \<^verbatim>\<open>check_client_auth\<close>,
  \<open>hide\<close> is \<^verbatim>\<open>config.misc.privacylevel >= PRIVACY_HIDE_DOMAINS_CLIENTS\<close>.
\<close>

definition api_history_clients ::
  "bool \<Rightarrow> bool \<Rightarrow> string list option \<Rightarrow> (nat \<Rightarrow> string) \<Rightarrow> int \<Rightarrow> shm \<Rightarrow> clients_reply" where
  "api_history_clients authorized hide excludeclients getstr now s =
     (if \<not> authorized then Unauthorized
      else
        (case history_from (overTime s) of
           None \<Rightarrow> Clients_history [] []
         | Some sendit \<Rightarrow>
             if hide then Clients_history [] []
             else
               (let until = history_until (overTime s) now;
                    history =
                      map (\<lambda>slot. \<lparr>ch_timestamp = ot_timestamp (overTime s ! slot),
                                    ch_data = map snd (series_columns excludeclients getstr s slot)\<rparr>)
                          [sendit..<until]
                in Clients_history history (map snd (directory_entries excludeclients getstr s)))))"

section \<open>Sample values\<close>

text \<open>
  A grace delay of minus one minute and ten-minute intervals, a retention of one day,
  and a small store: five queries in a five-cell array, two clients, two domains and
  three slots of ten minutes. They are the concrete inputs of the examples below.
\<close>

definition sample_macros :: macros where
  "sample_macros = \<lparr>GCdelay = -60, GCinterval = 600, OVERTIME_INTERVAL = 600, TYPE_MAX = 17\<rparr>"

definition sample_config :: config where
  "sample_config = \<lparr>maxHistory = 86400, rateLimit_count = 1000, check_disk = 90\<rparr>"

definition sample_queries :: "queriesData list" where
  "sample_queries =
     [\<lparr>timestamp = 0, clientID = 0, domainID = 0, status = QUERY_FORWARDED, reply = 1, qtype = 1, db = 10\<rparr>,
      \<lparr>timestamp = 100, clientID = 0, domainID = 0, status = QUERY_CACHE, reply = 1, qtype = 1, db = 11\<rparr>,
      \<lparr>timestamp = 200, clientID = 1, domainID = 1, status = QUERY_GRAVITY, reply = 2, qtype = 1, db = 12\<rparr>,
      \<lparr>timestamp = 700, clientID = 0, domainID = 0, status = QUERY_FORWARDED, reply = 1, qtype = 2, db = 13\<rparr>,
      \<lparr>timestamp = 1300, clientID = 1, domainID = 0, status = QUERY_CACHE, reply = 1, qtype = 1, db = 14\<rparr>]"

definition sample_client0 :: clientsData where
  "sample_client0 =
     \<lparr>c_count = 3, c_blockedcount = 0, c_overTime = [2, 1, 0], flag_aliasclient = False,
      aliasclient_id = -1, flag_rate_limited = True, rate_limit = 1500, ippos = 1, namepos = 2\<rparr>"

definition sample_client1 :: clientsData where
  "sample_client1 =
     \<lparr>c_count = 2, c_blockedcount = 1, c_overTime = [1, 0, 1], flag_aliasclient = False,
      aliasclient_id = -1, flag_rate_limited = True, rate_limit = 0, ippos = 3, namepos = 0\<rparr>"

definition sample_overTime :: "overTimeData list" where
  "sample_overTime =
     [\<lparr>ot_timestamp = 0, total = 3, blocked = 1, cached = 1\<rparr>,
      \<lparr>ot_timestamp = 600, total = 1, blocked = 0, cached = 0\<rparr>,
      \<lparr>ot_timestamp = 1200, total = 1, blocked = 0, cached = 1\<rparr>]"

definition sample_shm :: shm where
  "sample_shm =
     \<lparr>queries_mem = sample_queries, queries = 5, clients_n = 2,
      clients = [0 \<mapsto> sample_client0, 1 \<mapsto> sample_client1],
      domains = [0 \<mapsto> \<lparr>d_count = 4, d_blockedcount = 0\<rparr>, 1 \<mapsto> \<lparr>d_count = 1, d_blockedcount = 1\<rparr>],
      overTime = sample_overTime,
      status_cnt = (\<lambda>st. 0)(QUERY_FORWARDED := 2, QUERY_CACHE := 2, QUERY_GRAVITY := 1),
      reply_cnt = (\<lambda>r. 0)(1 := 4, 2 := 1),
      querytype_cnt = (\<lambda>t. 0)(1 := 4, 2 := 1),
      doGC = True, DBdeleteoldqueries = False, db_deleted = []\<rparr>"

definition sample_getOverTimeID :: "int \<Rightarrow> int" where
  "sample_getOverTimeID t = t div 600"

text \<open>
  A store with an alias-client and a client it manages: client 0 is the alias-client,
  client 1 has \<^verbatim>\<open>aliasclient_id = 0\<close>. \<open>sample_getstr\<close> is the string table.
\<close>

definition alias_shm :: shm where
  "alias_shm =
     sample_shm\<lparr>clients := [0 \<mapsto> sample_client0\<lparr>flag_aliasclient := True\<rparr>,
                              1 \<mapsto> sample_client1\<lparr>aliasclient_id := 0\<rparr>]\<rparr>"

definition sample_getstr :: "nat \<Rightarrow> string" where
  "sample_getstr p =
     (if p = 1 then ''10.0.0.1'' else if p = 2 then ''laptop''
      else if p = 3 then ''10.0.0.2'' else [])"

definition sample_blocked_query :: queriesData where
  "sample_blocked_query = sample_queries ! 2"

section \<open>Alignment of the run time and of the retention horizon\<close>

declare gc_scan.simps [simp del] first_slot.simps [simp del]

lemma smod_nonneg: "0 \<le> a \<Longrightarrow> 0 < b \<Longrightarrow> (a::int) smod b = a mod b"
  by (simp add: smod_int_alt_def sgn_if)

text \<open>
  C5, as the code has it. The run time stored through \<^verbatim>\<open>lastGCrun\<close> is
  \<open>(now - GCdelay) - ((now - GCdelay) % GCinterval)\<close>: for \<open>now - GCdelay \<ge> 0\<close> it is the
  largest multiple of the GC interval that does not exceed \<open>now - GCdelay\<close>, so it
  depends on the grace delay.
\<close>

theorem gc_lastGCrun_aligned:
  assumes "0 < GCinterval k" and "0 \<le> now - GCdelay k"
  shows "gc_lastGCrun k now = ((now - GCdelay k) div GCinterval k) * GCinterval k
       \<and> GCinterval k dvd gc_lastGCrun k now
       \<and> gc_lastGCrun k now \<le> now - GCdelay k
       \<and> now - GCdelay k < gc_lastGCrun k now + GCinterval k"
proof -
  let ?a = "now - GCdelay k" and ?b = "GCinterval k"
  have m: "?a smod ?b = ?a mod ?b" using assms by (simp add: smod_nonneg)
  have e: "gc_lastGCrun k now = ?a - ?a mod ?b" by (simp add: gc_lastGCrun_def m)
  have d: "?a - ?a mod ?b = (?a div ?b) * ?b" by (simp add: minus_mod_eq_div_mult)
  have lo: "0 \<le> ?a mod ?b" and hi: "?a mod ?b < ?b" using assms by simp_all
  show ?thesis using e d lo hi by simp
qed

theorem gc_lastGCrun_aligned_witness:
  "0 < GCinterval sample_macros \<and> 0 \<le> 1700000390 - GCdelay sample_macros
   \<and> gc_lastGCrun sample_macros 1700000390 = 1700000400
   \<and> gc_lastGCrun sample_macros 1700000390 \<le> 1700000390 - GCdelay sample_macros"
  using gc_lastGCrun_aligned [of sample_macros 1700000390]
  by (simp add: sample_macros_def)

text \<open>
  C5, as the claim states it, fails: at \<open>now = 1700000390\<close> the claim gives
  \<open>1699999800\<close>, the code stores \<open>1700000400\<close>, a time after \<open>now\<close>.
\<close>

theorem gc_lastGCrun_counterexample:
  "gc_lastGCrun sample_macros 1700000390 \<noteq> 1700000390 - (1700000390 mod GCinterval sample_macros)"
  by (simp add: gc_lastGCrun_def sample_macros_def smod_int_alt_def)

text \<open>
  C4, as the code has it. The horizon is \<open>now - GCdelay - maxHistory\<close> less its C
  remainder by \<^verbatim>\<open>GCinterval\<close>: always a multiple of the GC interval, hence of the
  bucket width whenever the bucket width divides the GC interval, and the value rounded
  down when \<open>now - GCdelay - maxHistory\<close> is not negative.
\<close>

theorem gc_mintime_aligned:
  "GCinterval k dvd gc_mintime k cfg now
   \<and> (OVERTIME_INTERVAL k dvd GCinterval k \<longrightarrow> OVERTIME_INTERVAL k dvd gc_mintime k cfg now)
   \<and> (0 < GCinterval k \<and> 0 \<le> now - GCdelay k - uint (maxHistory cfg) \<longrightarrow>
        gc_mintime k cfg now
          = ((now - GCdelay k - uint (maxHistory cfg)) div GCinterval k) * GCinterval k)"
proof -
  let ?m = "now - GCdelay k - uint (maxHistory cfg)" and ?b = "GCinterval k"
  have e: "gc_mintime k cfg now = (?m sdiv ?b) * ?b"
    by (simp add: gc_mintime_def Let_def minus_smod_eq_sdiv_mult)
  then have d: "?b dvd gc_mintime k cfg now" by simp
  have o: "OVERTIME_INTERVAL k dvd ?b \<longrightarrow> OVERTIME_INTERVAL k dvd gc_mintime k cfg now"
    using d by (blast intro: dvd_trans)
  have r: "gc_mintime k cfg now = (?m div ?b) * ?b" if "0 < ?b" and "0 \<le> ?m"
  proof -
    have "?m smod ?b = ?m mod ?b" using that by (simp add: smod_nonneg)
    then show ?thesis by (simp add: gc_mintime_def Let_def minus_mod_eq_div_mult)
  qed
  show ?thesis using d o r by blast
qed

theorem gc_mintime_aligned_witness:
  "OVERTIME_INTERVAL sample_macros dvd GCinterval sample_macros
   \<and> 0 < GCinterval sample_macros
   \<and> 0 \<le> 87000 - GCdelay sample_macros - uint (maxHistory sample_config)
   \<and> gc_mintime sample_macros sample_config 87000 = 600
   \<and> OVERTIME_INTERVAL sample_macros dvd gc_mintime sample_macros sample_config 87000"
  using gc_mintime_aligned [of sample_macros sample_config 87000]
  by (simp add: sample_macros_def sample_config_def)

text \<open>
  C4, as the claim states it, fails. With a GC interval of one hour and buckets of ten
  minutes, at \<open>now = 90640\<close> the difference is \<open>4300\<close>: rounded down to the bucket width
  it is \<open>4200\<close>, and the code computes \<open>3600\<close>. And even where the GC interval is the
  bucket width, at \<open>now = 1000\<close> the difference is \<open>-85340\<close>, rounded down to \<open>-85800\<close>,
  and the code computes \<open>-85200\<close>.
\<close>

theorem gc_mintime_counterexample:
  "gc_mintime (sample_macros\<lparr>GCinterval := 3600\<rparr>) sample_config 90640
     \<noteq> ((90640 - GCdelay (sample_macros\<lparr>GCinterval := 3600\<rparr>) - uint (maxHistory sample_config))
           div OVERTIME_INTERVAL (sample_macros\<lparr>GCinterval := 3600\<rparr>))
         * OVERTIME_INTERVAL (sample_macros\<lparr>GCinterval := 3600\<rparr>)
   \<and> gc_mintime sample_macros sample_config 1000
     \<noteq> ((1000 - GCdelay sample_macros - uint (maxHistory sample_config))
           div OVERTIME_INTERVAL sample_macros) * OVERTIME_INTERVAL sample_macros"
  by (simp add: gc_mintime_def sample_macros_def sample_config_def smod_int_alt_def Let_def)

section \<open>Resource monitor\<close>

text \<open>
  C9, as the code has it. With a threshold other than zero the shortage is reported
  exactly when the sampled usage exceeds the threshold and the usage of the last run;
  with the threshold zero the check is off: nothing is reported and \<open>0\<close> is returned.
  Usage equal to that of the last run is never reported; so the next check, which gets
  the returned value as the last usage (\<^verbatim>\<open>GC_thread\<close> stores it), reports nothing when
  the usage has not moved.
\<close>

theorem check_space_notifies:
  "(check_disk cfg \<noteq> 0 \<longrightarrow>
      (fst (check_space cfg usage LastUsage)
         \<longleftrightarrow> (word_of_int usage > check_disk cfg \<and> (word_of_int usage :: 32 word) > LastUsage)))
   \<and> (check_disk cfg = 0 \<longrightarrow> check_space cfg usage LastUsage = (False, 0))
   \<and> (word_of_int usage = LastUsage \<longrightarrow> \<not> fst (check_space cfg usage LastUsage))
   \<and> \<not> fst (check_space cfg usage (word_of_int (snd (check_space cfg usage LastUsage))))"
proof -
  have a: "check_disk cfg \<noteq> 0 \<longrightarrow>
      (fst (check_space cfg usage LastUsage)
         \<longleftrightarrow> (word_of_int usage > check_disk cfg \<and> (word_of_int usage :: 32 word) > LastUsage))"
    by (simp add: check_space_def Let_def)
  have b: "check_disk cfg = 0 \<longrightarrow> check_space cfg usage LastUsage = (False, 0)"
    by (simp add: check_space_def)
  have c: "word_of_int usage = LastUsage \<longrightarrow> \<not> fst (check_space cfg usage LastUsage)"
    by (simp add: check_space_def Let_def)
  have d: "\<not> fst (check_space cfg usage (word_of_int (snd (check_space cfg usage LastUsage))))"
  proof (cases "check_disk cfg = 0")
    case True
    then show ?thesis by (simp add: check_space_def)
  next
    case False
    then have "word_of_int (snd (check_space cfg usage LastUsage)) = (word_of_int usage :: 32 word)"
      by (simp add: check_space_def Let_def)
    then show ?thesis using False by (simp add: check_space_def Let_def)
  qed
  show ?thesis using a b c d by blast
qed

theorem check_space_notifies_witness:
  "check_disk sample_config \<noteq> 0
   \<and> fst (check_space sample_config 95 91)
   \<and> \<not> fst (check_space sample_config 95 95)
   \<and> check_disk (sample_config\<lparr>check_disk := 0\<rparr>) = 0
   \<and> check_space (sample_config\<lparr>check_disk := 0\<rparr>) 95 91 = (False, 0)"
  using check_space_notifies [of sample_config 95 91]
    check_space_notifies [of sample_config 95 95]
    check_space_notifies [of "sample_config\<lparr>check_disk := 0\<rparr>" 95 91]
  by (simp add: sample_config_def)

text \<open>
  C9, as the claim states it, fails with the threshold zero: a usage of 50 exceeds the
  threshold and the last usage of 10, and nothing is reported.
\<close>

theorem check_space_counterexample:
  "\<not> (fst (check_space (sample_config\<lparr>check_disk := 0\<rparr>) 50 10)
        \<longleftrightarrow> ((word_of_int 50 :: 32 word) > check_disk (sample_config\<lparr>check_disk := 0\<rparr>)
              \<and> (word_of_int 50 :: 32 word) > 10))"
  by (simp add: check_space_def sample_config_def)

section \<open>Rate limiting\<close>

lemma reset_step_clients:
  "clients (reset_step cfg i s) cid =
     (if cid = i then map_option (reset_client cfg) (clients s cid) else clients s cid)"
  by (simp add: reset_step_def getClient_def split: option.split)

lemma reset_fold_clients:
  "distinct ids \<Longrightarrow>
   clients (fold (reset_step cfg) ids s) cid =
     (if cid \<in> set ids then map_option (reset_client cfg) (clients s cid) else clients s cid)"
proof (induction ids arbitrary: s)
  case Nil
  then show ?case by simp
next
  case (Cons i ids)
  then show ?case by (simp add: reset_step_clients)
qed

text \<open>
  C6. After \<^verbatim>\<open>reset_rate_limiting\<close> every client of the table has the count zero, and
  is rate-limited exactly if it was rate-limited before and its count exceeded the
  configured one; a client whose count was zero is not rate-limited afterwards.
\<close>

theorem reset_rate_limiting_client:
  assumes "0 \<le> cid" and "cid < clients_n s" and "getClient s cid = Some c"
  shows "\<exists>c'. getClient (reset_rate_limiting cfg s) cid = Some c'
            \<and> rate_limit c' = 0
            \<and> (flag_rate_limited c' \<longleftrightarrow> flag_rate_limited c \<and> rateLimit_count cfg < rate_limit c)
            \<and> (rate_limit c = 0 \<longrightarrow> \<not> flag_rate_limited c')"
proof -
  have m: "cid \<in> set [0..clients_n s - 1]" using assms by simp
  have "clients (reset_rate_limiting cfg s) cid = map_option (reset_client cfg) (clients s cid)"
    unfolding reset_rate_limiting_def using m by (simp add: reset_fold_clients)
  then have g: "getClient (reset_rate_limiting cfg s) cid = Some (reset_client cfg c)"
    using assms(3) by (simp add: getClient_def)
  have r: "rate_limit (reset_client cfg c) = 0" by (simp add: reset_client_def Let_def)
  have f: "flag_rate_limited (reset_client cfg c)
             \<longleftrightarrow> flag_rate_limited c \<and> rateLimit_count cfg < rate_limit c"
    by (simp add: reset_client_def Let_def)
  have z: "rate_limit c = 0 \<longrightarrow> \<not> flag_rate_limited (reset_client cfg c)"
    using f by auto
  show ?thesis using g r f z by blast
qed

theorem reset_rate_limiting_client_witness:
  "(0::int) \<le> 1 \<and> 1 < clients_n sample_shm \<and> getClient sample_shm 1 = Some sample_client1
   \<and> flag_rate_limited sample_client1 \<and> rate_limit sample_client1 = 0
   \<and> (\<exists>c'. getClient (reset_rate_limiting sample_config sample_shm) 1 = Some c'
            \<and> rate_limit c' = 0 \<and> \<not> flag_rate_limited c')"
proof -
  have h: "(0::int) \<le> 1" "1 < clients_n sample_shm" "getClient sample_shm 1 = Some sample_client1"
    by (simp_all add: sample_shm_def getClient_def)
  have c: "flag_rate_limited sample_client1" "rate_limit sample_client1 = 0"
    by (simp_all add: sample_client1_def)
  from reset_rate_limiting_client [OF h, of sample_config] c h show ?thesis by auto
qed

section \<open>History endpoint\<close>

lemma first_slot_Some:
  "first_slot P ot i = Some j \<Longrightarrow>
     i \<le> j \<and> j < length ot \<and> P (ot ! j) \<and> (\<forall>m. i \<le> m \<and> m < j \<longrightarrow> \<not> P (ot ! m))"
proof (induction P ot i rule: first_slot.induct)
  case (1 P ot slot)
  show ?case
  proof (cases "slot < length ot")
    case False
    with "1.prems" show ?thesis by (simp add: first_slot.simps[of P ot slot])
  next
    case True
    show ?thesis
    proof (cases "P (ot ! slot)")
      case True
      with \<open>slot < length ot\<close> "1.prems" show ?thesis
        by (auto simp: first_slot.simps[of P ot slot])
    next
      case False
      with \<open>slot < length ot\<close> "1.prems" have "first_slot P ot (slot + 1) = Some j"
        by (simp add: first_slot.simps[of P ot slot])
      from "1.IH"[OF \<open>slot < length ot\<close> False this]
      have ih: "slot + 1 \<le> j" "j < length ot" "P (ot ! j)"
        "\<forall>m. slot + 1 \<le> m \<and> m < j \<longrightarrow> \<not> P (ot ! m)" by simp_all
      have "\<not> P (ot ! m)" if "slot \<le> m \<and> m < j" for m
      proof (cases "m = slot")
        case True
        then show ?thesis using False by simp
      next
        case False
        then have "slot + 1 \<le> m \<and> m < j" using that by simp
        then show ?thesis using ih(4) by blast
      qed
      then show ?thesis using ih by simp
    qed
  qed
qed

lemma first_slot_None:
  "first_slot P ot i = None \<Longrightarrow> \<forall>m. i \<le> m \<and> m < length ot \<longrightarrow> \<not> P (ot ! m)"
proof (induction P ot i rule: first_slot.induct)
  case (1 P ot slot)
  show ?case
  proof (cases "slot < length ot")
    case False
    then show ?thesis by auto
  next
    case True
    with "1.prems" have np: "\<not> P (ot ! slot)" and r: "first_slot P ot (slot + 1) = None"
      by (auto simp: first_slot.simps[of P ot slot] split: if_splits)
    from "1.IH"[OF True np r]
    have ih: "\<forall>m. slot + 1 \<le> m \<and> m < length ot \<longrightarrow> \<not> P (ot ! m)" .
    have "\<not> P (ot ! m)" if "slot \<le> m \<and> m < length ot" for m
    proof (cases "m = slot")
      case True
      then show ?thesis using np by simp
    next
      case False
      then have "slot + 1 \<le> m \<and> m < length ot" using that by simp
      then show ?thesis using ih by blast
    qed
    then show ?thesis by simp
  qed
qed

lemma history_until_props:
  "history_until ot now \<le> length ot
   \<and> (\<forall>slot < history_until ot now. ot_timestamp (ot ! slot) < now)
   \<and> (history_until ot now < length ot \<longrightarrow> now \<le> ot_timestamp (ot ! history_until ot now))"
proof (cases "first_slot (\<lambda>b. ot_timestamp b \<ge> now) ot 0")
  case None
  from first_slot_None[OF None] show ?thesis
    by (simp add: history_until_def None not_le)
next
  case (Some j)
  from first_slot_Some[OF Some] show ?thesis
    by (simp add: history_until_def Some not_le)
qed

lemma h_timestamp_item: "h_timestamp (history_item_of b) = ot_timestamp b"
  by (simp add: history_item_of_def)




section \<open>Effect of evicting one query\<close>

lemma overTime_upd_frame [simp]:
  "queries_mem (overTime_upd f t s) = queries_mem s"
  "queries (overTime_upd f t s) = queries s"
  "clients_n (overTime_upd f t s) = clients_n s"
  "clients (overTime_upd f t s) = clients s"
  "domains (overTime_upd f t s) = domains s"
  "status_cnt (overTime_upd f t s) = status_cnt s"
  "reply_cnt (overTime_upd f t s) = reply_cnt s"
  "querytype_cnt (overTime_upd f t s) = querytype_cnt s"
  "doGC (overTime_upd f t s) = doGC s"
  "DBdeleteoldqueries (overTime_upd f t s) = DBdeleteoldqueries s"
  "db_deleted (overTime_upd f t s) = db_deleted s"
  by (simp_all add: overTime_upd_def)

lemma client_upd_frame [simp]:
  "queries_mem (client_upd f c s) = queries_mem s"
  "queries (client_upd f c s) = queries s"
  "clients_n (client_upd f c s) = clients_n s"
  "overTime (client_upd f c s) = overTime s"
  "domains (client_upd f c s) = domains s"
  "status_cnt (client_upd f c s) = status_cnt s"
  "reply_cnt (client_upd f c s) = reply_cnt s"
  "querytype_cnt (client_upd f c s) = querytype_cnt s"
  "doGC (client_upd f c s) = doGC s"
  "DBdeleteoldqueries (client_upd f c s) = DBdeleteoldqueries s"
  "db_deleted (client_upd f c s) = db_deleted s"
  by (simp_all add: client_upd_def split: option.split)

lemma domain_upd_frame [simp]:
  "queries_mem (domain_upd f d s) = queries_mem s"
  "queries (domain_upd f d s) = queries s"
  "clients_n (domain_upd f d s) = clients_n s"
  "overTime (domain_upd f d s) = overTime s"
  "clients (domain_upd f d s) = clients s"
  "status_cnt (domain_upd f d s) = status_cnt s"
  "reply_cnt (domain_upd f d s) = reply_cnt s"
  "querytype_cnt (domain_upd f d s) = querytype_cnt s"
  "doGC (domain_upd f d s) = doGC s"
  "DBdeleteoldqueries (domain_upd f d s) = DBdeleteoldqueries s"
  "db_deleted (domain_upd f d s) = db_deleted s"
  by (simp_all add: domain_upd_def split: option.split)

lemma overTime_upd_overTime:
  "overTime (overTime_upd f t s) =
     (if 0 \<le> t \<and> t < int (length (overTime s))
      then (overTime s)[nat t := f (overTime s ! nat t)] else overTime s)"
  by (simp add: overTime_upd_def)

lemma client_upd_clients:
  "clients (client_upd f c s) =
     (case clients s c of None \<Rightarrow> clients s | Some x \<Rightarrow> (clients s)(c \<mapsto> f x))"
  by (simp add: client_upd_def getClient_def split: option.split)

lemma domain_upd_domains:
  "domains (domain_upd f d s) =
     (case domains s d of None \<Rightarrow> domains s | Some x \<Rightarrow> (domains s)(d \<mapsto> f x))"
  by (simp add: domain_upd_def getDomain_def split: option.split)

lemma change_clientcount_frame [simp]:
  "queries_mem (change_clientcount c t b x m s) = queries_mem s"
  "queries (change_clientcount c t b x m s) = queries s"
  "clients_n (change_clientcount c t b x m s) = clients_n s"
  "overTime (change_clientcount c t b x m s) = overTime s"
  "domains (change_clientcount c t b x m s) = domains s"
  "status_cnt (change_clientcount c t b x m s) = status_cnt s"
  "reply_cnt (change_clientcount c t b x m s) = reply_cnt s"
  "querytype_cnt (change_clientcount c t b x m s) = querytype_cnt s"
  "doGC (change_clientcount c t b x m s) = doGC s"
  "DBdeleteoldqueries (change_clientcount c t b x m s) = DBdeleteoldqueries s"
  "db_deleted (change_clientcount c t b x m s) = db_deleted s"
  by (simp_all add: change_clientcount_def Let_def split: option.split)

text \<open>What \<^verbatim>\<open>change_clientcount\<close> leaves in the client table depends on the table alone.\<close>

lemma change_clientcount_clients:
  "clients (change_clientcount c t b x m s) =
     (case clients s c of
        None \<Rightarrow> clients s
      | Some client \<Rightarrow>
          (let tbl = (clients s)(c \<mapsto> client\<lparr>c_count := c_count client + t,
                                              c_blockedcount := c_blockedcount client + b\<rparr>);
               target = (if aliasclient_id client \<ge> 0 then aliasclient_id client else c)
           in case tbl target of
                None \<Rightarrow> tbl
              | Some tc \<Rightarrow> tbl(target \<mapsto> bump_overTime x m tc)))"
  by (simp add: change_clientcount_def Let_def client_upd_clients getClient_def
           split: option.split)

lemma change_clientcount_cong:
  "clients s = clients s' \<Longrightarrow>
   clients (change_clientcount c t b x m s) = clients (change_clientcount c t b x m s')"
  by (simp only: change_clientcount_clients)

lemma change_clientcount_None:
  "getClient s c = None \<Longrightarrow> change_clientcount c t b x m s = s"
  by (simp add: change_clientcount_def)

lemma change_clientcount_own:
  assumes "clients s c = Some client"
  shows "clients (change_clientcount c t b x m s) c =
           Some (if 0 \<le> aliasclient_id client \<and> aliasclient_id client \<noteq> c
                 then client\<lparr>c_count := c_count client + t,
                             c_blockedcount := c_blockedcount client + b\<rparr>
                 else bump_overTime x m
                        (client\<lparr>c_count := c_count client + t,
                                c_blockedcount := c_blockedcount client + b\<rparr>))"
  using assms
  by (auto simp: change_clientcount_clients Let_def split: option.split)

lemma change_clientcount_target:
  assumes "clients s c = Some client"
    and "0 \<le> aliasclient_id client" and "aliasclient_id client \<noteq> c"
  shows "clients (change_clientcount c t b x m s) (aliasclient_id client) =
           map_option (bump_overTime x m) (clients s (aliasclient_id client))"
  using assms
  by (auto simp: change_clientcount_clients Let_def split: option.split)

lemma gc_switch_blocking:
  "gc_switch t q s = (if blocking_status (status q) then gc_blocked t q s else s)"
  by (cases "status q") (simp_all add: gc_switch_def blocking_status_def)

lemma blocking_status_UNKNOWN [simp]: "\<not> blocking_status QUERY_UNKNOWN"
  by (simp add: blocking_status_def)

lemma cached_status_UNKNOWN [simp]: "\<not> cached_status QUERY_UNKNOWN"
  by (simp add: cached_status_def)

lemma gc_blocked_frame [simp]:
  "queries_mem (gc_blocked t q s) = queries_mem s"
  "queries (gc_blocked t q s) = queries s"
  "clients_n (gc_blocked t q s) = clients_n s"
  "status_cnt (gc_blocked t q s) = status_cnt s"
  "reply_cnt (gc_blocked t q s) = reply_cnt s"
  "querytype_cnt (gc_blocked t q s) = querytype_cnt s"
  "doGC (gc_blocked t q s) = doGC s"
  "DBdeleteoldqueries (gc_blocked t q s) = DBdeleteoldqueries s"
  "db_deleted (gc_blocked t q s) = db_deleted s"
  by (simp_all add: gc_blocked_def Let_def)

lemma gc_switch_frame [simp]:
  "queries_mem (gc_switch t q s) = queries_mem s"
  "queries (gc_switch t q s) = queries s"
  "clients_n (gc_switch t q s) = clients_n s"
  "status_cnt (gc_switch t q s) = status_cnt s"
  "reply_cnt (gc_switch t q s) = reply_cnt s"
  "querytype_cnt (gc_switch t q s) = querytype_cnt s"
  "doGC (gc_switch t q s) = doGC s"
  "DBdeleteoldqueries (gc_switch t q s) = DBdeleteoldqueries s"
  "db_deleted (gc_switch t q s) = db_deleted s"
  by (simp_all add: gc_switch_blocking)

lemma gc_counters_frame [simp]:
  "queries_mem (gc_counters gid q s) = queries_mem s"
  "queries (gc_counters gid q s) = queries s"
  "clients_n (gc_counters gid q s) = clients_n s"
  "status_cnt (gc_counters gid q s) = status_cnt s"
  "reply_cnt (gc_counters gid q s) = reply_cnt s"
  "querytype_cnt (gc_counters gid q s) = querytype_cnt s"
  "doGC (gc_counters gid q s) = doGC s"
  "DBdeleteoldqueries (gc_counters gid q s) = DBdeleteoldqueries s"
  "db_deleted (gc_counters gid q s) = db_deleted s"
  by (simp_all add: gc_counters_def Let_def)

lemma query_set_status_frame [simp]:
  "queries (query_set_status gid i st s) = queries s"
  "clients_n (query_set_status gid i st s) = clients_n s"
  "clients (query_set_status gid i st s) = clients s"
  "reply_cnt (query_set_status gid i st s) = reply_cnt s"
  "querytype_cnt (query_set_status gid i st s) = querytype_cnt s"
  "doGC (query_set_status gid i st s) = doGC s"
  "DBdeleteoldqueries (query_set_status gid i st s) = DBdeleteoldqueries s"
  "db_deleted (query_set_status gid i st s) = db_deleted s"
  by (simp_all add: query_set_status_def Let_def)

lemma query_set_status_mem:
  "queries_mem (query_set_status gid i st s)
     = (queries_mem s)[i := (queries_mem s ! i)\<lparr>status := st\<rparr>]"
proof (cases "status (queries_mem s ! i) = st")
  case True
  then have e: "(queries_mem s ! i)\<lparr>status := st\<rparr> = queries_mem s ! i"
    by (cases "queries_mem s ! i") simp
  have u: "query_set_status gid i st s = s"
    using True by (simp add: query_set_status_def Let_def)
  have "(queries_mem s)[i := (queries_mem s ! i)\<lparr>status := st\<rparr>] = queries_mem s"
    by (simp only: e list_update_id)
  then show ?thesis by (simp only: u)
next
  case False
  then show ?thesis by (simp add: query_set_status_def Let_def)
qed

lemma gc_evict_frame [simp]:
  "queries (gc_evict k gid i q s) = queries s"
  "clients_n (gc_evict k gid i q s) = clients_n s"
  "doGC (gc_evict k gid i q s) = doGC s"
  "DBdeleteoldqueries (gc_evict k gid i q s) = DBdeleteoldqueries s"
  "db_deleted (gc_evict k gid i q s) = db_deleted s @ [db q]"
  by (simp_all add: gc_evict_def Let_def)

lemma gc_evict_mem:
  "queries_mem (gc_evict k gid i q s) = (queries_mem s)[i := (queries_mem s ! i)\<lparr>status := QUERY_UNKNOWN\<rparr>]"
  by (simp add: gc_evict_def Let_def query_set_status_mem)

lemma gc_counters_overTime:
  "overTime (gc_counters gid q s) =
     (if 0 \<le> gid (timestamp q) \<and> gid (timestamp q) < int (length (overTime s))
      then (overTime s)[nat (gid (timestamp q)) :=
             (overTime s ! nat (gid (timestamp q)))
               \<lparr>total := total (overTime s ! nat (gid (timestamp q))) - 1,
                blocked := blocked (overTime s ! nat (gid (timestamp q)))
                             - (if blocking_status (status q) then 1 else 0)\<rparr>]
      else overTime s)"
proof (cases "0 \<le> gid (timestamp q) \<and> gid (timestamp q) < int (length (overTime s))")
  case True
  then have "nat (gid (timestamp q)) < length (overTime s)" by (simp add: nat_less_iff)
  then show ?thesis using True
    by (simp add: gc_counters_def Let_def gc_switch_blocking gc_blocked_def overTime_upd_overTime)
next
  case False
  then show ?thesis
    by (auto simp: gc_counters_def Let_def gc_switch_blocking gc_blocked_def overTime_upd_overTime)
qed

lemma gc_counters_domains:
  "domains (gc_counters gid q s) =
     (case domains s (domainID q) of
        None \<Rightarrow> domains s
      | Some d \<Rightarrow> (domains s)(domainID q \<mapsto>
                     d\<lparr>d_count := d_count d - 1,
                       d_blockedcount := d_blockedcount d - (if blocking_status (status q) then 1 else 0)\<rparr>))"
  by (auto simp: gc_counters_def Let_def gc_switch_blocking gc_blocked_def domain_upd_domains
           split: option.split)

text \<open>The client table after the counters: the one or two calls of the helper, nothing else.\<close>

lemma guarded_call:
  "(if getClient u c \<noteq> None then change_clientcount c a b x m u else u)
     = change_clientcount c a b x m u"
  by (simp add: change_clientcount_None)

lemma gc_blocked_alt:
  "gc_blocked t q s =
     change_clientcount (clientID q) 0 (-1) (-1) 0
       (domain_upd (\<lambda>d. d\<lparr>d_blockedcount := d_blockedcount d - 1\<rparr>) (domainID q)
          (overTime_upd (\<lambda>b. b\<lparr>blocked := blocked b - 1\<rparr>) t s))"
  by (simp only: gc_blocked_def Let_def guarded_call)

lemma gc_counters_alt:
  "gc_counters gid q s =
     gc_switch (gid (timestamp q)) q
       (domain_upd (\<lambda>d. d\<lparr>d_count := d_count d - 1\<rparr>) (domainID q)
          (change_clientcount (clientID q) (-1) 0 (gid (timestamp q)) (-1)
             (overTime_upd (\<lambda>b. b\<lparr>total := total b - 1\<rparr>) (gid (timestamp q)) s)))"
  by (simp only: gc_counters_def Let_def guarded_call)

lemma gc_counters_clients:
  "clients (gc_counters gid q s) =
     clients (if blocking_status (status q)
              then change_clientcount (clientID q) 0 (-1) (-1) 0
                     (change_clientcount (clientID q) (-1) 0 (gid (timestamp q)) (-1) s)
              else change_clientcount (clientID q) (-1) 0 (gid (timestamp q)) (-1) s)"
proof -
  let ?t = "gid (timestamp q)" and ?c = "clientID q"
  let ?s1 = "overTime_upd (\<lambda>b. b\<lparr>total := total b - 1\<rparr>) ?t s"
  let ?s3 = "domain_upd (\<lambda>d. d\<lparr>d_count := d_count d - 1\<rparr>) (domainID q)
               (change_clientcount ?c (-1) 0 ?t (-1) ?s1)"
  have c1: "clients (change_clientcount ?c (-1) 0 ?t (-1) ?s1)
              = clients (change_clientcount ?c (-1) 0 ?t (-1) s)"
    by (rule change_clientcount_cong) simp
  have c3: "clients ?s3 = clients (change_clientcount ?c (-1) 0 ?t (-1) s)"
    by (simp only: domain_upd_frame c1)
  show ?thesis
  proof (cases "blocking_status (status q)")
    case False
    then show ?thesis using c3 by (simp add: gc_counters_alt gc_switch_blocking)
  next
    case True
    have "clients (gc_counters gid q s)
            = clients (change_clientcount ?c 0 (-1) (-1) 0
                (domain_upd (\<lambda>d. d\<lparr>d_blockedcount := d_blockedcount d - 1\<rparr>) (domainID q)
                  (overTime_upd (\<lambda>b. b\<lparr>blocked := blocked b - 1\<rparr>) ?t ?s3)))"
      using True by (simp only: gc_counters_alt gc_switch_blocking gc_blocked_alt if_True)
    also have "\<dots> = clients (change_clientcount ?c 0 (-1) (-1) 0
                        (change_clientcount ?c (-1) 0 ?t (-1) s))"
      by (rule change_clientcount_cong) (simp add: c1)
    finally show ?thesis using True by simp
  qed
qed

lemma gc_scan_inv:
  "gc_scan k gid mintime i r s = (e, s') \<Longrightarrow> r = i \<Longrightarrow>
   queries s \<le> length (queries_mem s) \<Longrightarrow> i \<le> queries s \<Longrightarrow>
     (i \<le> e \<and> e \<le> queries s)
   \<and> queries s' = queries s
   \<and> length (queries_mem s') = length (queries_mem s)
   \<and> (\<forall>j. j < i \<or> e \<le> j \<longrightarrow> queries_mem s' ! j = queries_mem s ! j)
   \<and> (\<forall>j. i \<le> j \<and> j < e \<longrightarrow> timestamp (queries_mem s ! j) \<le> mintime)
   \<and> (e < queries s \<longrightarrow> mintime < timestamp (queries_mem s ! e))
   \<and> db_deleted s' = db_deleted s @ map db (take (e - i) (drop i (queries_mem s)))
   \<and> doGC s' = doGC s \<and> DBdeleteoldqueries s' = DBdeleteoldqueries s
   \<and> clients_n s' = clients_n s
   \<and> s' = fold (evict_at k gid) [i..<e] s"
proof (induction k gid mintime i r s arbitrary: e s' rule: gc_scan.induct)
  case (1 k gid mintime i removed s)
  note inv = \<open>queries s \<le> length (queries_mem s)\<close>
  show ?case
  proof (cases "i < queries s")
    case False
    then have "gc_scan k gid mintime i removed s = (removed, s)"
      by (simp add: gc_scan.simps[of k gid mintime i removed s])
    with "1.prems"(1,2) have "e = i" "s' = s" by simp_all
    then show ?thesis using "1.prems" False by simp
  next
    case True
    let ?q = "queries_mem s ! i"
    have gq: "getQuery s i = Some ?q" using True inv by (simp add: getQuery_def)
    show ?thesis
    proof (cases "mintime < timestamp ?q")
      case new: True
      with True gq have "gc_scan k gid mintime i removed s = (removed, s)"
        by (simp add: gc_scan.simps[of k gid mintime i removed s])
      with "1.prems"(1,2) have "e = i" "s' = s" by simp_all
      then show ?thesis using "1.prems" new True by simp
    next
      case old: False
      let ?E = "gc_evict k gid i ?q s"
      have "gc_scan k gid mintime i removed s = gc_scan k gid mintime (i + 1) (removed + 1) ?E"
        using True gq old by (simp add: gc_scan.simps[of k gid mintime i removed s])
      then have rec: "gc_scan k gid mintime (i + 1) (removed + 1) ?E = (e, s')"
        using "1.prems"(1) by simp
      have memE: "queries_mem ?E = (queries_mem s)[i := ?q\<lparr>status := QUERY_UNKNOWN\<rparr>]"
        by (simp add: gc_evict_mem)
      have invE: "queries ?E \<le> length (queries_mem ?E)" using inv by (simp add: memE)
      have iE: "i + 1 \<le> queries ?E" using True by simp
      have rE: "removed + 1 = i + 1" using "1.prems"(2) by simp
      note ih = "1.IH"(2)[OF True gq old rec rE invE iE]
      have i1: "i + 1 \<le> e \<and> e \<le> queries ?E" using ih by blast
      have i2: "queries s' = queries ?E" using ih by blast
      have i3: "length (queries_mem s') = length (queries_mem ?E)" using ih by blast
      have i4: "\<forall>j. j < i + 1 \<or> e \<le> j \<longrightarrow> queries_mem s' ! j = queries_mem ?E ! j"
        using ih by blast
      have i5: "\<forall>j. i + 1 \<le> j \<and> j < e \<longrightarrow> timestamp (queries_mem ?E ! j) \<le> mintime"
        using ih by blast
      have i6: "e < queries ?E \<longrightarrow> mintime < timestamp (queries_mem ?E ! e)" using ih by blast
      have i7: "db_deleted s' = db_deleted ?E @ map db (take (e - (i + 1)) (drop (i + 1) (queries_mem ?E)))"
        using ih by blast
      have i8: "doGC s' = doGC ?E \<and> DBdeleteoldqueries s' = DBdeleteoldqueries ?E
                \<and> clients_n s' = clients_n ?E" using ih by blast
      have i9: "s' = fold (evict_at k gid) [i + 1..<e] ?E" using ih by blast
      have c1: "i \<le> e \<and> e \<le> queries s" using i1 by simp
      have ie: "i < e" using i1 by simp
      have c2: "queries s' = queries s" using i2 by simp
      have c3: "length (queries_mem s') = length (queries_mem s)" using i3 by (simp add: memE)
      have c4: "\<forall>j. j < i \<or> e \<le> j \<longrightarrow> queries_mem s' ! j = queries_mem s ! j"
      proof (intro allI impI)
        fix j assume j: "j < i \<or> e \<le> j"
        then have "j < i + 1 \<or> e \<le> j" by auto
        then have "queries_mem s' ! j = queries_mem ?E ! j" using i4 by blast
        moreover have "j \<noteq> i" using j ie by auto
        ultimately show "queries_mem s' ! j = queries_mem s ! j" by (simp add: memE)
      qed
      have c5: "\<forall>j. i \<le> j \<and> j < e \<longrightarrow> timestamp (queries_mem s ! j) \<le> mintime"
      proof (intro allI impI)
        fix j assume j: "i \<le> j \<and> j < e"
        show "timestamp (queries_mem s ! j) \<le> mintime"
        proof (cases "j = i")
          case True
          then show ?thesis using old by simp
        next
          case False
          then have "i + 1 \<le> j \<and> j < e" using j by simp
          then have "timestamp (queries_mem ?E ! j) \<le> mintime" using i5 by blast
          then show ?thesis using False by (simp add: memE)
        qed
      qed
      have c6: "e < queries s \<longrightarrow> mintime < timestamp (queries_mem s ! e)"
      proof
        assume "e < queries s"
        then have "mintime < timestamp (queries_mem ?E ! e)" using i6 by simp
        then show "mintime < timestamp (queries_mem s ! e)" using ie by (simp add: memE)
      qed
      have il: "i < length (queries_mem s)" using True inv by simp
      have tk: "take (e - i) (drop i (queries_mem s))
                  = ?q # take (e - (i + 1)) (drop (i + 1) (queries_mem s))"
      proof -
        have "drop i (queries_mem s) = ?q # drop (Suc i) (queries_mem s)"
          using il by (simp add: Cons_nth_drop_Suc)
        moreover have "e - i = Suc (e - (i + 1))" using ie by simp
        ultimately show ?thesis by simp
      qed
      have c7: "db_deleted s' = db_deleted s @ map db (take (e - i) (drop i (queries_mem s)))"
        using i7 by (simp add: memE tk)
      have c8: "doGC s' = doGC s \<and> DBdeleteoldqueries s' = DBdeleteoldqueries s
                \<and> clients_n s' = clients_n s"
        using i8 by simp
      have ups: "[i..<e] = i # [i + 1..<e]" using ie by (simp add: upt_conv_Cons)
      have c9: "s' = fold (evict_at k gid) [i..<e] s"
        using i9 by (simp add: ups evict_at_def)
      show ?thesis using c1 c2 c3 c4 c5 c6 c7 c8 c9 by blast
    qed
  qed
qed

text \<open>The loop is the body applied to the removed queries, one after the other.\<close>

lemma gc_scan_is_fold:
  assumes "queries s \<le> length (queries_mem s)"
    and "gc_scan k gid mintime 0 0 s = (e, s')"
  shows "s' = fold (evict_at k gid) [0..<e] s"
  using gc_scan_inv[OF assms(2) refl assms(1) le0] by blast

section \<open>Compaction and window shift\<close>

lemma moveOverTimeMemory_frame [simp]:
  "queries_mem (moveOverTimeMemory k m s) = queries_mem s"
  "queries (moveOverTimeMemory k m s) = queries s"
  "clients_n (moveOverTimeMemory k m s) = clients_n s"
  "domains (moveOverTimeMemory k m s) = domains s"
  "status_cnt (moveOverTimeMemory k m s) = status_cnt s"
  "reply_cnt (moveOverTimeMemory k m s) = reply_cnt s"
  "querytype_cnt (moveOverTimeMemory k m s) = querytype_cnt s"
  "doGC (moveOverTimeMemory k m s) = doGC s"
  "DBdeleteoldqueries (moveOverTimeMemory k m s) = DBdeleteoldqueries s"
  "db_deleted (moveOverTimeMemory k m s) = db_deleted s"
  by (simp_all add: moveOverTimeMemory_def Let_def)

lemma moveOverTimeMemory_DBdelete:
  "moveOverTimeMemory k m (s\<lparr>DBdeleteoldqueries := b\<rparr>)
     = (moveOverTimeMemory k m s)\<lparr>DBdeleteoldqueries := b\<rparr>"
  by (simp add: moveOverTimeMemory_def Let_def)

lemma fresh_slots_ge:
  assumes "0 \<le> w" and "m \<le> t0"
  shows "\<forall>b \<in> set (fresh_slots w t0 n). m \<le> ot_timestamp b"
proof
  fix b assume "b \<in> set (fresh_slots w t0 n)"
  then obtain j where
    "b = \<lparr>ot_timestamp = t0 + int j * w, total = 0, blocked = 0, cached = 0\<rparr>"
    by (auto simp: fresh_slots_def)
  then have b: "ot_timestamp b = t0 + int j * w" by simp
  have "0 \<le> int j * w" using assms(1) by simp
  then show "m \<le> ot_timestamp b" using assms(2) b by simp
qed

lemma filter_kept_append:
  "\<forall>b \<in> set ys. P b \<Longrightarrow> filter P (filter P xs @ ys) = filter P xs @ ys"
  by (simp add: filter_id_conv)

lemma moveOverTimeMemory_idem:
  assumes w: "0 \<le> OVERTIME_INTERVAL k"
  shows "moveOverTimeMemory k m (moveOverTimeMemory k m s) = moveOverTimeMemory k m s"
proof -
  let ?P = "\<lambda>b. m \<le> ot_timestamp b"
  let ?kept = "filter ?P (overTime s)"
  let ?n = "length (overTime s) - length ?kept"
  show ?thesis
  proof (cases "?n = 0")
    case True
    then have "moveOverTimeMemory k m s = s" by (simp add: moveOverTimeMemory_def Let_def)
    then show ?thesis by simp
  next
    case False
    let ?t0 = "if ?kept = [] then m else ot_timestamp (last ?kept) + OVERTIME_INTERVAL k"
    let ?fresh = "fresh_slots (OVERTIME_INTERVAL k) ?t0 ?n"
    have ot: "overTime (moveOverTimeMemory k m s) = ?kept @ ?fresh"
      using False by (simp add: moveOverTimeMemory_def Let_def)
    have t0: "m \<le> ?t0"
    proof (cases "?kept = []")
      case True
      then show ?thesis by simp
    next
      case ne: False
      then have "last ?kept \<in> set ?kept" by (rule last_in_set)
      then have "m \<le> ot_timestamp (last ?kept)" by simp
      then show ?thesis using ne w by simp
    qed
    have fr: "\<forall>b \<in> set ?fresh. ?P b" using fresh_slots_ge[OF w t0] by blast
    have "filter ?P (?kept @ ?fresh) = ?kept @ ?fresh"
      using fr by (rule filter_kept_append)
    then have "length (overTime (moveOverTimeMemory k m s))
                 - length (filter ?P (overTime (moveOverTimeMemory k m s))) = 0"
      by (simp only: ot diff_self_eq_0)
    then show ?thesis
      by (simp add: moveOverTimeMemory_def[of k m "moveOverTimeMemory k m s"] Let_def)
  qed
qed

lemma gc_compact_frame [simp]:
  "clients_n (gc_compact e s) = clients_n s"
  "clients (gc_compact e s) = clients s"
  "domains (gc_compact e s) = domains s"
  "overTime (gc_compact e s) = overTime s"
  "status_cnt (gc_compact e s) = status_cnt s"
  "reply_cnt (gc_compact e s) = reply_cnt s"
  "querytype_cnt (gc_compact e s) = querytype_cnt s"
  "doGC (gc_compact e s) = doGC s"
  "DBdeleteoldqueries (gc_compact e s) = DBdeleteoldqueries s"
  "db_deleted (gc_compact e s) = db_deleted s"
  "queries (gc_compact e s) = queries s - e"
  by (simp_all add: gc_compact_def Let_def)

lemma gc_compact_mem:
  assumes inv: "queries s \<le> length (queries_mem s)" and e: "0 < e" "e \<le> queries s"
  shows "queries_mem (gc_compact e s)
           = take (queries s - e) (drop e (queries_mem s))
             @ replicate (length (queries_mem s) - (queries s - e)) zero_query"
proof -
  let ?mem = "queries_mem s" and ?Q = "queries s"
  have l0: "0 < length ?mem" using inv e by (cases ?mem) auto
  have tl: "?Q - e < length ?mem" using inv e by simp
  show ?thesis
  proof (cases "e < length ?mem")
    case True
    have lm: "length (memmove_queries ?mem 0 e (?Q - e)) = length ?mem"
      using inv e True by (simp add: memmove_queries_def)
    have tk: "take (?Q - e) (memmove_queries ?mem 0 e (?Q - e)) = take (?Q - e) (drop e ?mem)"
      using inv e by (simp add: memmove_queries_def)
    show ?thesis using True l0 tl lm tk
      by (simp add: gc_compact_def Let_def getQuery_def memset_queries_def)
  next
    case False
    then have eq: "e = ?Q" "?Q = length ?mem" using inv e by simp_all
    show ?thesis using False l0 eq
      by (simp add: gc_compact_def Let_def getQuery_def memset_queries_def)
  qed
qed

lemma runGC_unfold:
  assumes "gc_scan k gid (gc_mintime k cfg now) 0 0 (s\<lparr>doGC := False\<rparr>) = (e, s1)"
  shows "runGC k cfg gid now s =
           (gc_lastGCrun k now, e,
            (moveOverTimeMemory k (gc_mintime k cfg now)
               (if e > 0 then gc_compact e s1 else s1))\<lparr>DBdeleteoldqueries := True\<rparr>)"
  using assms by (simp add: runGC_def Let_def)

section \<open>The pass over the ledger\<close>

lemma sorted_prefix_filter:
  assumes srt: "sorted (map f xs)" and e: "e \<le> length xs"
    and lo: "\<forall>j < e. f (xs ! j) \<le> (m::int)"
    and hi: "e < length xs \<longrightarrow> m < f (xs ! e)"
  shows "filter (\<lambda>q. f q \<le> m) xs = take e xs \<and> (\<forall>q \<in> set (drop e xs). m < f q)"
proof -
  have d: "m < f q" if "q \<in> set (drop e xs)" for q
  proof -
    from that obtain j where j: "j < length (drop e xs)" "q = drop e xs ! j"
      by (auto simp: in_set_conv_nth)
    then have el: "e < length xs" and jl: "e + j < length xs" by auto
    have "map f xs ! e \<le> map f xs ! (e + j)"
      using srt jl by (intro sorted_nth_mono) simp_all
    then have "f (xs ! e) \<le> f (xs ! (e + j))" using el jl by simp
    moreover have "q = xs ! (e + j)" using j e by simp
    ultimately show ?thesis using hi el by simp
  qed
  have t: "f q \<le> m" if "q \<in> set (take e xs)" for q
  proof -
    from that obtain j where "j < e" "j < length xs" "q = xs ! j"
      by (auto simp: in_set_conv_nth)
    then show ?thesis using lo by simp
  qed
  have "filter (\<lambda>q. f q \<le> m) (take e xs @ drop e xs)
          = filter (\<lambda>q. f q \<le> m) (take e xs) @ filter (\<lambda>q. f q \<le> m) (drop e xs)"
    by (rule filter_append)
  moreover have "filter (\<lambda>q. f q \<le> m) (take e xs) = take e xs"
    using t by (simp add: filter_id_conv)
  moreover have "filter (\<lambda>q. f q \<le> m) (drop e xs) = []"
    using d by (fastforce simp: filter_empty_conv)
  ultimately have "filter (\<lambda>q. f q \<le> m) xs = take e xs" by simp
  then show ?thesis using d by blast
qed

lemma runGC_scan:
  assumes "runGC k cfg gid now s = (lastrun, removed, s')"
  obtains s1 where
    "gc_scan k gid (gc_mintime k cfg now) 0 0 (s\<lparr>doGC := False\<rparr>) = (removed, s1)"
    "s' = (moveOverTimeMemory k (gc_mintime k cfg now)
             (if removed > 0 then gc_compact removed s1 else s1))\<lparr>DBdeleteoldqueries := True\<rparr>"
    "lastrun = gc_lastGCrun k now"
proof (cases "gc_scan k gid (gc_mintime k cfg now) 0 0 (s\<lparr>doGC := False\<rparr>)")
  case (Pair e s1)
  from runGC_unfold[OF Pair] assms that Pair show ?thesis by simp
qed

lemma runGC_ledger:
  assumes inv: "queries s \<le> length (queries_mem s)"
    and run: "runGC k cfg gid now s = (lastrun, removed, s')"
  shows "removed \<le> queries s"
    and "\<forall>j < removed. timestamp (queries_mem s ! j) \<le> gc_mintime k cfg now"
    and "removed < queries s \<longrightarrow> gc_mintime k cfg now < timestamp (queries_mem s ! removed)"
    and "queries s' = queries s - removed"
    and "length (queries_mem s') = length (queries_mem s)"
    and "take (queries s') (queries_mem s') = drop removed (take (queries s) (queries_mem s))"
    and "db_deleted s' = db_deleted s @ map db (take removed (queries_mem s))"
    and "\<not> doGC s'"
proof -
  let ?m = "gc_mintime k cfg now" and ?s0 = "s\<lparr>doGC := False\<rparr>"
  let ?mem = "queries_mem s" and ?Q = "queries s"
  from run obtain s1 where
    sc: "gc_scan k gid ?m 0 0 ?s0 = (removed, s1)" and
    s': "s' = (moveOverTimeMemory k ?m
                 (if removed > 0 then gc_compact removed s1 else s1))\<lparr>DBdeleteoldqueries := True\<rparr>"
    by (rule runGC_scan)
  have inv0: "queries ?s0 \<le> length (queries_mem ?s0)" using inv by simp
  note g = gc_scan_inv[OF sc refl inv0 le0]
  have "removed \<le> queries ?s0" using g by blast
  then have g1: "removed \<le> ?Q" by simp
  have "queries s1 = queries ?s0" using g by blast
  then have g2: "queries s1 = ?Q" by simp
  have "length (queries_mem s1) = length (queries_mem ?s0)" using g by blast
  then have g3: "length (queries_mem s1) = length ?mem" by simp
  have "\<forall>j. j < 0 \<or> removed \<le> j \<longrightarrow> queries_mem s1 ! j = queries_mem ?s0 ! j" using g by blast
  then have g4: "\<forall>j. removed \<le> j \<longrightarrow> queries_mem s1 ! j = ?mem ! j" by simp
  have "\<forall>j. 0 \<le> j \<and> j < removed \<longrightarrow> timestamp (queries_mem ?s0 ! j) \<le> ?m" using g by blast
  then have g5: "\<forall>j < removed. timestamp (?mem ! j) \<le> ?m" by simp
  have "removed < queries ?s0 \<longrightarrow> ?m < timestamp (queries_mem ?s0 ! removed)" using g by blast
  then have g6: "removed < ?Q \<longrightarrow> ?m < timestamp (?mem ! removed)" by simp
  have "db_deleted s1 = db_deleted ?s0 @ map db (take (removed - 0) (drop 0 (queries_mem ?s0)))"
    using g by blast
  then have g7: "db_deleted s1 = db_deleted s @ map db (take removed ?mem)" by simp
  have "doGC s1 = doGC ?s0" using g by blast
  then have g8: "\<not> doGC s1" by simp
  show "removed \<le> ?Q" by (rule g1)
  show "\<forall>j < removed. timestamp (?mem ! j) \<le> ?m" by (rule g5)
  show "removed < ?Q \<longrightarrow> ?m < timestamp (?mem ! removed)" by (rule g6)
  show "queries s' = ?Q - removed" using g2 by (simp add: s')
  show "length (queries_mem s') = length ?mem"
  proof (cases "removed > 0")
    case True
    have "queries s1 \<le> length (queries_mem s1)" using inv g2 g3 by simp
    from gc_compact_mem[OF this True] g1 g2 g3 inv True show ?thesis
      by (simp add: s')
  next
    case False
    then show ?thesis using g3 by (simp add: s')
  qed
  have dr: "drop removed (queries_mem s1) = drop removed ?mem"
    using g3 g4 by (intro nth_equalityI) simp_all
  show "take (queries s') (queries_mem s') = drop removed (take ?Q ?mem)"
  proof (cases "removed > 0")
    case True
    have "queries s1 \<le> length (queries_mem s1)" using inv g2 g3 by simp
    from gc_compact_mem[OF this True] g1 g2
    have "queries_mem (gc_compact removed s1)
            = take (?Q - removed) (drop removed ?mem)
              @ replicate (length (queries_mem s1) - (?Q - removed)) zero_query"
      by (simp add: dr)
    moreover have "length (take (?Q - removed) (drop removed ?mem)) = ?Q - removed"
      using inv by simp
    ultimately show ?thesis using True g2 by (simp add: s' drop_take)
  next
    case False
    then have "queries_mem s1 = ?mem" using dr by simp
    then show ?thesis using False g2 by (simp add: s')
  qed
  show "db_deleted s' = db_deleted s @ map db (take removed ?mem)"
    using g7 by (simp add: s')
  show "\<not> doGC s'" using g8 by (simp add: s')
qed

text \<open>
  C1. For a pass over a store whose live queries are sorted by timestamp, with the
  horizon \<open>gc_mintime\<close> of the pass: the removed queries are the first \<open>removed\<close> live
  queries and they are exactly the live queries with a timestamp up to the horizon (they
  are also the queries deleted from the database, in this order); the live queries after
  the pass are the remaining ones, and each of them is newer than the horizon.
\<close>

theorem runGC_evicts_prefix:
  assumes inv: "queries s \<le> length (queries_mem s)"
    and srt: "sorted (map timestamp (take (queries s) (queries_mem s)))"
    and run: "runGC k cfg gid now s = (lastrun, removed, s')"
  shows "take removed (take (queries s) (queries_mem s))
           = filter (\<lambda>q. timestamp q \<le> gc_mintime k cfg now) (take (queries s) (queries_mem s))
       \<and> db_deleted s' = db_deleted s @ map db (take removed (take (queries s) (queries_mem s)))
       \<and> take (queries s') (queries_mem s') = drop removed (take (queries s) (queries_mem s))
       \<and> queries s' = queries s - removed
       \<and> (\<forall>q \<in> set (take (queries s') (queries_mem s')). gc_mintime k cfg now < timestamp q)"
proof -
  let ?live = "take (queries s) (queries_mem s)" and ?m = "gc_mintime k cfg now"
  note l = runGC_ledger[OF inv run]
  have len: "length ?live = queries s" using inv by simp
  have e: "removed \<le> length ?live" using l(1) len by simp
  have lo: "\<forall>j < removed. timestamp (?live ! j) \<le> ?m" using l(1,2) by simp
  have hi: "removed < length ?live \<longrightarrow> ?m < timestamp (?live ! removed)" using l(3) len by simp
  from sorted_prefix_filter[OF srt e lo hi]
  have f: "filter (\<lambda>q. timestamp q \<le> ?m) ?live = take removed ?live"
    and d: "\<forall>q \<in> set (drop removed ?live). ?m < timestamp q" by simp_all
  have tt: "take removed ?live = take removed (queries_mem s)" using l(1) by (simp add: min_def)
  show ?thesis using f d l(4,6,7) tt by simp
qed

lemma doGC_False_id: "\<not> doGC s \<Longrightarrow> s\<lparr>doGC := False\<rparr> = s"
  by (cases s) simp

text \<open>
  C3. A second pass at the same time on the store the first pass left removes no query
  and returns that store unchanged: the query array and its fill counter, the client and
  domain tables, the histogram, the global counters and the record of deletions.
\<close>

theorem runGC_twice:
  assumes inv: "queries s \<le> length (queries_mem s)"
    and w: "0 \<le> OVERTIME_INTERVAL k"
    and run: "runGC k cfg gid now s = (lastrun, removed, s')"
  shows "runGC k cfg gid now s' = (lastrun, 0, s')"
proof -
  let ?m = "gc_mintime k cfg now"
  from run obtain s1 where
    s': "s' = (moveOverTimeMemory k ?m
                 (if removed > 0 then gc_compact removed s1 else s1))\<lparr>DBdeleteoldqueries := True\<rparr>"
    and lr: "lastrun = gc_lastGCrun k now"
    by (rule runGC_scan)
  note l = runGC_ledger[OF inv run]
  have d: "s'\<lparr>doGC := False\<rparr> = s'" using l(8) by (rule doGC_False_id)
  have sc: "gc_scan k gid ?m 0 0 s' = (0, s')"
  proof (cases "0 < queries s'")
    case False
    then show ?thesis by (simp add: gc_scan.simps[of k gid ?m 0 0 s'])
  next
    case True
    then have r: "removed < queries s" using l(4) by simp
    have "0 < length (queries_mem s)" using r inv by (cases "queries_mem s") auto
    then have ln: "0 < length (queries_mem s')" by (simp only: l(5))
    have "queries_mem s' ! 0 = take (queries s') (queries_mem s') ! 0" using True by simp
    also have "\<dots> = drop removed (take (queries s) (queries_mem s)) ! 0" by (simp only: l(6))
    also have "\<dots> = queries_mem s ! removed" using r inv by simp
    finally have "?m < timestamp (queries_mem s' ! 0)" using l(3) r by simp
    then show ?thesis using True ln
      by (simp add: gc_scan.simps[of k gid ?m 0 0 s'] getQuery_def)
  qed
  have mv: "moveOverTimeMemory k ?m s' = s'"
    by (simp only: s' moveOverTimeMemory_DBdelete moveOverTimeMemory_idem[OF w])
  have "runGC k cfg gid now s' = (gc_lastGCrun k now, 0, s'\<lparr>DBdeleteoldqueries := True\<rparr>)"
    using runGC_unfold[of k gid cfg now s' 0 s'] sc d mv by simp
  moreover have "s'\<lparr>DBdeleteoldqueries := True\<rparr> = s'" by (simp add: s')
  ultimately show ?thesis using lr by simp
qed

lemma bump_overTime_fields [simp]:
  "c_count (bump_overTime x m c) = c_count c"
  "c_blockedcount (bump_overTime x m c) = c_blockedcount c"
  "aliasclient_id (bump_overTime x m c) = aliasclient_id c"
  by (simp_all add: bump_overTime_def)

lemma bump_overTime_no_slot [simp]: "bump_overTime (-1) m c = c"
  by (simp add: bump_overTime_def)

lemma bump_overTime_slot:
  "0 \<le> x \<Longrightarrow> x < int (length (c_overTime c)) \<Longrightarrow>
   c_overTime (bump_overTime x m c) = (c_overTime c)[nat x := c_overTime c ! nat x + m]"
  by (simp add: bump_overTime_def)

lemma gc_counters_client_found:
  assumes c: "getClient s (clientID q) = Some c"
  shows "\<exists>c'. getClient (gc_counters gid q s) (clientID q) = Some c'
            \<and> c_count c' = c_count c - 1
            \<and> c_blockedcount c' = c_blockedcount c - (if blocking_status (status q) then 1 else 0)
            \<and> c_overTime c' =
                (if 0 \<le> aliasclient_id c \<and> aliasclient_id c \<noteq> clientID q
                 then c_overTime c
                 else c_overTime (bump_overTime (gid (timestamp q)) (-1) c))"
proof -
  let ?t = "gid (timestamp q)" and ?cid = "clientID q"
  let ?m = "0 \<le> aliasclient_id c \<and> aliasclient_id c \<noteq> ?cid"
  let ?s1 = "change_clientcount ?cid (-1) 0 ?t (-1) s"
  let ?c0 = "c\<lparr>c_count := c_count c + (-1), c_blockedcount := c_blockedcount c + 0\<rparr>"
  let ?c1 = "if ?m then ?c0 else bump_overTime ?t (-1) ?c0"
  from c have cs: "clients s ?cid = Some c" by (simp add: getClient_def)
  have o1: "clients ?s1 ?cid = Some ?c1"
    by (rule change_clientcount_own[OF cs])
  have a1: "aliasclient_id ?c1 = aliasclient_id c" by simp
  have f1: "c_count ?c1 = c_count c - 1" "c_blockedcount ?c1 = c_blockedcount c" by simp_all
  have v1: "c_overTime ?c1 = (if ?m then c_overTime c else c_overTime (bump_overTime ?t (-1) c))"
    by (simp add: bump_overTime_def)
  show ?thesis
  proof (cases "blocking_status (status q)")
    case False
    then have "getClient (gc_counters gid q s) ?cid = Some ?c1"
      using o1 by (simp add: getClient_def gc_counters_clients)
    then show ?thesis using False f1 v1 by (intro exI[of _ ?c1]) simp
  next
    case True
    let ?c2 = "?c1\<lparr>c_count := c_count ?c1 + 0, c_blockedcount := c_blockedcount ?c1 + (-1)\<rparr>"
    let ?c3 = "if 0 \<le> aliasclient_id ?c1 \<and> aliasclient_id ?c1 \<noteq> ?cid
               then ?c2 else bump_overTime (-1) 0 ?c2"
    have "clients (change_clientcount ?cid 0 (-1) (-1) 0 ?s1) ?cid = Some ?c3"
      by (rule change_clientcount_own[OF o1])
    moreover have "?c3 = ?c2" by simp
    ultimately have g: "getClient (gc_counters gid q s) ?cid = Some ?c2"
      using True by (simp only: getClient_def gc_counters_clients if_True)
    have "c_count ?c2 = c_count c - 1" "c_blockedcount ?c2 = c_blockedcount c - 1"
      "c_overTime ?c2 = c_overTime ?c1"
      using f1 by simp_all
    then show ?thesis using True g v1 by (intro exI[of _ ?c2]) simp
  qed
qed

lemma gc_counters_alias_target:
  assumes c: "getClient s (clientID q) = Some c"
    and m: "0 \<le> aliasclient_id c" "aliasclient_id c \<noteq> clientID q"
    and a: "getClient s (aliasclient_id c) = Some a"
  shows "getClient (gc_counters gid q s) (aliasclient_id c)
           = Some (bump_overTime (gid (timestamp q)) (-1) a)"
proof -
  let ?t = "gid (timestamp q)" and ?cid = "clientID q"
  let ?s1 = "change_clientcount ?cid (-1) 0 ?t (-1) s"
  let ?c0 = "c\<lparr>c_count := c_count c + (-1), c_blockedcount := c_blockedcount c + 0\<rparr>"
  from c have cs: "clients s ?cid = Some c" by (simp add: getClient_def)
  from a have as: "clients s (aliasclient_id c) = Some a" by (simp add: getClient_def)
  have o1: "clients ?s1 ?cid = Some ?c0"
    using change_clientcount_own[OF cs, of "-1" 0 ?t "-1"] m by simp
  have t1: "clients ?s1 (aliasclient_id c) = Some (bump_overTime ?t (-1) a)"
    using change_clientcount_target[OF cs m, of "-1" 0 ?t "-1"] as by simp
  show ?thesis
  proof (cases "blocking_status (status q)")
    case False
    then show ?thesis using t1 by (simp add: getClient_def gc_counters_clients)
  next
    case True
    have m0: "0 \<le> aliasclient_id ?c0" "aliasclient_id ?c0 \<noteq> ?cid" using m by simp_all
    have "clients (change_clientcount ?cid 0 (-1) (-1) 0 ?s1) (aliasclient_id ?c0)
            = map_option (bump_overTime (-1) 0) (clients ?s1 (aliasclient_id ?c0))"
      by (rule change_clientcount_target[OF o1 m0])
    then have "clients (change_clientcount ?cid 0 (-1) (-1) 0 ?s1) (aliasclient_id c)
                 = Some (bump_overTime ?t (-1) a)"
      using t1 by simp
    then show ?thesis using True by (simp only: getClient_def gc_counters_clients if_True)
  qed
qed

lemma gc_counters_domain_found:
  assumes "getDomain s (domainID q) = Some d"
  shows "getDomain (gc_counters gid q s) (domainID q)
           = Some (d\<lparr>d_count := d_count d - 1,
                     d_blockedcount := d_blockedcount d
                                        - (if blocking_status (status q) then 1 else 0)\<rparr>)"
  using assms by (simp add: getDomain_def gc_counters_domains)

lemma gc_counters_slot:
  assumes "0 \<le> gid (timestamp q)" and "gid (timestamp q) < int (length (overTime s))"
  shows "length (overTime (gc_counters gid q s)) = length (overTime s)
       \<and> total (overTime (gc_counters gid q s) ! nat (gid (timestamp q)))
           = total (overTime s ! nat (gid (timestamp q))) - 1
       \<and> blocked (overTime (gc_counters gid q s) ! nat (gid (timestamp q)))
           = blocked (overTime s ! nat (gid (timestamp q)))
             - (if blocking_status (status q) then 1 else 0)"
proof -
  have "nat (gid (timestamp q)) < length (overTime s)" using assms by (simp add: nat_less_iff)
  then show ?thesis using assms by (simp add: gc_counters_overTime)
qed




section \<open>Examples of a pass\<close>

lemma sample_mintime: "gc_mintime sample_macros sample_config 87000 = 600"
  by (simp add: gc_mintime_def sample_macros_def sample_config_def smod_int_alt_def Let_def)

theorem runGC_evicts_prefix_witness:
  "queries sample_shm \<le> length (queries_mem sample_shm)
   \<and> sorted (map timestamp (take (queries sample_shm) (queries_mem sample_shm)))
   \<and> (\<exists>lastrun s'.
         runGC sample_macros sample_config sample_getOverTimeID 87000 sample_shm = (lastrun, 3, s')
         \<and> db_deleted s' = [10, 11, 12]
         \<and> map timestamp (take (queries s') (queries_mem s')) = [700, 1300]
         \<and> queries s' = 2)"
proof -
  have inv: "queries sample_shm \<le> length (queries_mem sample_shm)"
    by (simp add: sample_shm_def sample_queries_def)
  have live: "take (queries sample_shm) (queries_mem sample_shm) = sample_queries"
    by (simp add: sample_shm_def sample_queries_def)
  have srt: "sorted (map timestamp (take (queries sample_shm) (queries_mem sample_shm)))"
    by (simp add: live) (simp add: sample_queries_def)
  obtain lastrun removed s' where
    run: "runGC sample_macros sample_config sample_getOverTimeID 87000 sample_shm
            = (lastrun, removed, s')"
    by (rule prod_cases3)
  note t = runGC_evicts_prefix[OF inv srt run, unfolded sample_mintime live]
  have f: "filter (\<lambda>q. timestamp q \<le> 600) sample_queries = take 3 sample_queries"
    by (simp add: sample_queries_def)
  have e: "take removed sample_queries = take 3 sample_queries" using t f by simp
  have l5: "length sample_queries = 5" by (simp add: sample_queries_def)
  have "length (take removed sample_queries) = length (take 3 sample_queries)"
    by (simp only: e)
  then have r: "removed = 3" by (simp add: l5 min_def split: if_splits)
  have "db_deleted s' = db_deleted sample_shm @ map db (take removed sample_queries)"
    using t by blast
  then have d: "db_deleted s' = [10, 11, 12]"
    by (simp add: r sample_shm_def sample_queries_def)
  have "take (queries s') (queries_mem s') = drop removed sample_queries"
    using t by blast
  then have m: "map timestamp (take (queries s') (queries_mem s')) = [700, 1300]"
    by (simp add: r sample_queries_def)
  have "queries s' = queries sample_shm - removed" using t by blast
  then have q: "queries s' = 2" by (simp add: r sample_shm_def)
  have run3: "runGC sample_macros sample_config sample_getOverTimeID 87000 sample_shm
                = (lastrun, 3, s')"
    using run r by simp
  have "\<exists>lastrun s'.
         runGC sample_macros sample_config sample_getOverTimeID 87000 sample_shm = (lastrun, 3, s')
         \<and> db_deleted s' = [10, 11, 12]
         \<and> map timestamp (take (queries s') (queries_mem s')) = [700, 1300]
         \<and> queries s' = 2"
    by (rule exI[of _ lastrun], rule exI[of _ s'], intro conjI)
       (rule run3, rule d, rule m, rule q)
  then show ?thesis using inv srt by (simp only: simp_thms)
qed

theorem runGC_twice_witness:
  "queries sample_shm \<le> length (queries_mem sample_shm)
   \<and> 0 \<le> OVERTIME_INTERVAL sample_macros
   \<and> (\<exists>lastrun removed s'.
         runGC sample_macros sample_config sample_getOverTimeID 87000 sample_shm
           = (lastrun, removed, s')
         \<and> runGC sample_macros sample_config sample_getOverTimeID 87000 s' = (lastrun, 0, s'))"
proof -
  have inv: "queries sample_shm \<le> length (queries_mem sample_shm)"
    by (simp add: sample_shm_def sample_queries_def)
  have w: "0 \<le> OVERTIME_INTERVAL sample_macros" by (simp add: sample_macros_def)
  obtain lastrun removed s' where
    run: "runGC sample_macros sample_config sample_getOverTimeID 87000 sample_shm
            = (lastrun, removed, s')"
    by (rule prod_cases3)
  from runGC_twice[OF inv w run] inv w run show ?thesis by blast
qed








lemma upto_0_1: "[0..(1::int)] = [0, 1]"
  by (simp add: upto.simps)

text \<open>
  C7, at an input where the code departs from it. Without a list of excluded clients,
  the client managed by an alias-client gets no column in the items of \<open>history\<close> but
  still gets an entry in \<open>clients\<close>: one column for client 0, two entries for clients
  0 and 1.
\<close>

theorem api_history_clients_alias_directory:
  "api_history_clients True False None sample_getstr 1000 alias_shm
     = Clients_history
         [\<lparr>ch_timestamp = 0, ch_data = [2]\<rparr>, \<lparr>ch_timestamp = 600, ch_data = [1]\<rparr>]
         [\<lparr>ci_name = Some ''laptop'', ci_ip = ''10.0.0.1''\<rparr>,
          \<lparr>ci_name = None, ci_ip = ''10.0.0.2''\<rparr>]
   \<and> map fst (series_columns None sample_getstr alias_shm 0) = [0]
   \<and> map fst (directory_entries None sample_getstr alias_shm) = [0, 1]"
proof -
  have n: "[0..clients_n alias_shm - 1] = [0, 1]"
    by (simp add: alias_shm_def sample_shm_def upto_0_1)
  have c0: "getClient alias_shm 0 = Some (sample_client0\<lparr>flag_aliasclient := True\<rparr>)"
    and c1: "getClient alias_shm 1 = Some (sample_client1\<lparr>aliasclient_id := 0\<rparr>)"
    by (simp_all add: alias_shm_def getClient_def)
  have sk: "\<And>cid. \<not> skipclient None sample_getstr alias_shm cid"
    by (simp add: skipclient_def)
  have sc: "\<And>slot. series_columns None sample_getstr alias_shm slot
              = [(0, c_overTime sample_client0 ! slot)]"
    by (simp add: series_columns_def n sk c0 c1
          sample_client0_def sample_client1_def)
  have de: "directory_entries None sample_getstr alias_shm
              = [(0, \<lparr>ci_name = Some ''laptop'', ci_ip = ''10.0.0.1''\<rparr>),
                 (1, \<lparr>ci_name = None, ci_ip = ''10.0.0.2''\<rparr>)]"
    by (simp add: directory_entries_def n sk c0 c1
          sample_client0_def sample_client1_def sample_getstr_def)
  have ot: "overTime alias_shm = sample_overTime" by (simp add: alias_shm_def sample_shm_def)
  have u: "history_until sample_overTime 1000 = 2"
    by (simp add: history_until_def first_slot.simps sample_overTime_def)
  have f: "history_from sample_overTime = Some 0"
    by (simp add: history_from_def first_slot.simps sample_overTime_def)
  have "api_history_clients True False None sample_getstr 1000 alias_shm
     = Clients_history
         [\<lparr>ch_timestamp = 0, ch_data = [2]\<rparr>, \<lparr>ch_timestamp = 600, ch_data = [1]\<rparr>]
         [\<lparr>ci_name = Some ''laptop'', ci_ip = ''10.0.0.1''\<rparr>,
          \<lparr>ci_name = None, ci_ip = ''10.0.0.2''\<rparr>]"
    by (simp add: api_history_clients_def ot u f sc de Let_def upt_rec)
       (simp add: sample_overTime_def sample_client0_def)
  then show ?thesis by (simp add: sc de)
qed

text \<open>
  The part of C7 that holds on every input, and the path of the code that keeps the two
  lists in step: with a list of excluded clients the managed clients are skipped in both.
\<close>

lemma series_columns_not_managed:
  assumes "(cid, v) \<in> set (series_columns excludeclients getstr s slot)"
  shows "\<exists>client. getClient s cid = Some client \<and> aliasclient_id client < 0
                  \<and> v = c_overTime client ! slot"
  using assms
  by (auto simp: series_columns_def List.map_filter_def split: if_splits option.splits)

lemma map_fst_map_filter:
  assumes "\<And>x y. f x = Some y \<Longrightarrow> fst y = x"
  shows "map fst (List.map_filter f xs) = filter (\<lambda>x. f x \<noteq> None) xs"
proof (induction xs)
  case Nil
  then show ?case by (simp add:)
next
  case (Cons x xs)
  then show ?case using assms[of x] by (cases "f x") (simp_all add:)
qed

lemma directory_matches_series_when_excluding:
  assumes ex: "excludeclients = Some arr"
    and ok: "\<And>cid client. getClient s cid = Some client \<Longrightarrow>
               aliasclient_id client \<ge> 0 \<Longrightarrow> \<not> flag_aliasclient client"
  shows "map fst (directory_entries excludeclients getstr s)
           = map fst (series_columns excludeclients getstr s slot)"
proof -
  let ?ids = "[0..clients_n s - 1]"
  let ?D = "\<lambda>cid. if skipclient excludeclients getstr s cid then None
               else (case getClient s cid of
                       None \<Rightarrow> None
                     | Some client \<Rightarrow>
                         Some (cid, \<lparr>ci_name = (if namepos client \<noteq> 0
                                                 then Some (getstr (namepos client)) else None),
                                     ci_ip = getstr (ippos client)\<rparr>))"
  let ?S = "\<lambda>cid. if skipclient excludeclients getstr s cid then None
               else (case getClient s cid of
                       None \<Rightarrow> None
                     | Some client \<Rightarrow>
                         if aliasclient_id client \<ge> 0 then None
                         else Some (cid, c_overTime client ! slot))"
  have d: "map fst (List.map_filter ?D ?ids) = filter (\<lambda>x. ?D x \<noteq> None) ?ids"
    by (rule map_fst_map_filter) (auto split: if_splits option.splits)
  have s: "map fst (List.map_filter ?S ?ids) = filter (\<lambda>x. ?S x \<noteq> None) ?ids"
    by (rule map_fst_map_filter) (auto split: if_splits option.splits)
  have "(?D cid \<noteq> None) = (?S cid \<noteq> None)" for cid
    using ok[of cid] by (auto simp: skipclient_def ex split: option.splits)
  then show ?thesis by (simp add: directory_entries_def series_columns_def d s)
qed

end
